theory Spec2Isabelle
  imports Main "HOL-Library.Word"
begin

section \<open>Source text and intervals\<close>

text \<open>
  A JavaScript string is a sequence of 16-bit code units; document offsets are
  0-based indices into it. Offsets are JavaScript numbers holding integers, modelled
  as \<open>int\<close> (they may leave the text: \<open>range.end - 1\<close> is \<open>-1\<close> for an interval
  ending at 0).
\<close>

type_synonym code_unit = "16 word"
type_synonym source = "code_unit list"

text \<open>The interface \<open>Range { start: number; end: number }\<close>.\<close>

record Range =
  start :: int
  end_pos :: int

text \<open>ASCII text as code units, for writing concrete documents.\<close>

definition js :: "string \<Rightarrow> source" where
  "js s = map of_char s"

text \<open>
  \<open>source.charAt(i)\<close>: the one-unit string at index \<open>i\<close>, the empty string when
  \<open>i\<close> is outside the text.
\<close>

definition charAt :: "source \<Rightarrow> int \<Rightarrow> source" where
  "charAt source i =
     (if 0 \<le> i \<and> i < int (length source) then [source ! nat i] else [])"

text \<open>
  The class \<open>\s\<close> of an ECMAScript regular expression: white space and line
  terminators.
\<close>

definition isWhiteSpaceUnit :: "code_unit \<Rightarrow> bool" where
  "isWhiteSpaceUnit c =
     (c = 9 \<or> c = 10 \<or> c = 11 \<or> c = 12 \<or> c = 13 \<or> c = 32 \<or> c = 160 \<or> c = 5760
      \<or> (8192 \<le> c \<and> c \<le> 8202)
      \<or> c = 8232 \<or> c = 8233 \<or> c = 8239 \<or> c = 8287 \<or> c = 12288 \<or> c = 65279)"

text \<open>\<open>WHITESPACE.test(s)\<close> for \<open>const WHITESPACE = /\s/\<close>: some unit of \<open>s\<close> matches.\<close>

definition WHITESPACE_test :: "source \<Rightarrow> bool" where
  "WHITESPACE_test s = list_ex isWhiteSpaceUnit s"

subsection \<open>collapseWhitespace\<close>

text \<open>
  The first loop of \<open>collapseWhitespace\<close>,
  \<^verbatim>\<open>while (i < source.length && WHITESPACE.test(source.charAt(i))) { i++; leftRemove++; }\<close>
  as a function of \<open>i\<close> and \<open>leftRemove\<close>, returning the final \<open>leftRemove\<close>.
\<close>

function leftScan :: "source \<Rightarrow> int \<Rightarrow> int \<Rightarrow> int" where
  "leftScan source i leftRemove =
     (if i < int (length source) \<and> WHITESPACE_test (charAt source i)
      then leftScan source (i + 1) (leftRemove + 1)
      else leftRemove)"
  by pat_completeness auto
termination
  by (relation "measure (\<lambda>(source, i, leftRemove). nat (int (length source) - i))") auto

text \<open>
  The second loop,
  \<^verbatim>\<open>while (j >= 0 && WHITESPACE.test(source.charAt(j))) { j--; rightRemove++; }\<close>
\<close>

function rightScan :: "source \<Rightarrow> int \<Rightarrow> int \<Rightarrow> int" where
  "rightScan source j rightRemove =
     (if j \<ge> 0 \<and> WHITESPACE_test (charAt source j)
      then rightScan source (j - 1) (rightRemove + 1)
      else rightRemove)"
  by pat_completeness auto
termination
  by (relation "measure (\<lambda>(source, j, rightRemove). nat (j + 1))") auto

text \<open>
  \<open>collapseWhitespace\<close>; the two source files differ only in taking the text from
  \<open>editor.document.getText()\<close> or as the argument \<open>source\<close>.
\<close>

definition collapseWhitespace :: "source \<Rightarrow> Range \<Rightarrow> Range" where
  "collapseWhitespace source rng =
     (let leftRemove = leftScan source (start rng) 0;
          rightRemove = rightScan source (end_pos rng - 1) 0
      in \<lparr>start = start rng + leftRemove, end_pos = end_pos rng - rightRemove\<rparr>)"

text \<open>
  The Interval invariant of the specification, \<open>0 \<le> start \<le> end \<le> length text\<close>.
\<close>

definition validInterval :: "source \<Rightarrow> Range \<Rightarrow> bool" where
  "validInterval source rng =
     (0 \<le> start rng \<and> start rng \<le> end_pos rng \<and> end_pos rng \<le> int (length source))"

text \<open>A unit of the text that is not white space lies inside the interval.\<close>

definition hasNonWhitespace :: "source \<Rightarrow> Range \<Rightarrow> bool" where
  "hasNonWhitespace source rng =
     (\<exists>k \<in> {nat (start rng) ..< nat (end_pos rng)}.
        k < length source \<and> \<not> isWhiteSpaceUnit (source ! k))"

section \<open>The syntax tree\<close>

text \<open>
  The parser (\<open>createSourceFile\<close> of the TypeScript compiler) is outside the program;
  its result is an input of the model. Of \<open>SyntaxKind\<close> only the kinds the program
  names are constructors, every other kind is \<open>OtherKind\<close> with its number.
\<close>

datatype SyntaxKind =
    TemplateHead | TemplateMiddle | TemplateTail | TemplateSpan
  | JsxElement | JsxSelfClosingElement | JsxOpeningElement
  | JsxAttributes | JsxAttribute
  | OtherKind nat

text \<open>
  What the program reads of a \<open>Node\<close>: \<open>kind\<close>, \<open>getFullStart()\<close>, \<open>getEnd()\<close>, the
  children \<open>forEachChild\<close> visits in order, the list \<open>getChildren(sourceFile)\<close> returns
  (it also holds the tokens), and the property \<open>literal\<close> (of a template span).
\<close>

datatype Node =
  Node (kind: SyntaxKind) (getFullStart: int) (getEnd: int)
       (forEachChild: "Node list") (getChildren: "Node list") (literal: "Node option")

text \<open>\<open>getFullWidth()\<close> of the compiler: \<open>end - pos\<close>, the full start being \<open>pos\<close>.\<close>

definition getFullWidth :: "Node \<Rightarrow> int" where
  "getFullWidth node = getEnd node - getFullStart node"

definition isTemplateSpan :: "Node \<Rightarrow> bool" where
  "isTemplateSpan node = (kind node = TemplateSpan)"

text \<open>Reading a property of \<open>undefined\<close> throws a \<open>TypeError\<close>.\<close>

datatype error = TypeError

subsection \<open>Path resolution\<close>

text \<open>
  \<open>pathToPositionInternal\<close> pushes onto the array \<open>path\<close>; the model returns the array.
  The callbacks given to \<open>forEachChild\<close> return nothing, so every child is visited.
\<close>

fun pathToPositionInternal :: "Node \<Rightarrow> int \<Rightarrow> int \<Rightarrow> Node list \<Rightarrow> Node list" where
  "pathToPositionInternal (Node k nodeStart nodeEnd children cs lit) st en path =
     (if st < nodeStart \<or> en > nodeEnd then path
      else foldl (\<lambda>path child. pathToPositionInternal child st en path)
             (path @ [Node k nodeStart nodeEnd children cs lit]) children)"

text \<open>
  \<open>getPathOfNodesInRange\<close> (named \<open>pathToPosition\<close> in the earlier variant of the file).
\<close>

definition getPathOfNodesInRange :: "Node \<Rightarrow> int \<Rightarrow> int \<Rightarrow> Node list" where
  "getPathOfNodesInRange node st en = pathToPositionInternal node st en []"

text \<open>
  Path resolution in the words of the specification: a node is included, and its
  children are examined in order, when it contains the interval; otherwise its whole
  subtree is pruned.
\<close>

fun resolvePath :: "int \<Rightarrow> int \<Rightarrow> Node \<Rightarrow> Node list" where
  "resolvePath st en (Node k nodeStart nodeEnd children cs lit) =
     (if st \<ge> nodeStart \<and> en \<le> nodeEnd
      then Node k nodeStart nodeEnd children cs lit # concat (map (resolvePath st en) children)
      else [])"

text \<open>The containment test, as the specification words it.\<close>

definition containsInterval :: "int \<Rightarrow> int \<Rightarrow> Node \<Rightarrow> bool" where
  "containsInterval st en node = (st \<ge> getFullStart node \<and> en \<le> getEnd node)"

text \<open>
  The same walk with the depth of every node beside it (the root of the walk has the
  depth given).
\<close>

fun resolvePathDepth :: "nat \<Rightarrow> int \<Rightarrow> int \<Rightarrow> Node \<Rightarrow> (nat \<times> Node) list" where
  "resolvePathDepth d st en (Node k nodeStart nodeEnd children cs lit) =
     (if st \<ge> nodeStart \<and> en \<le> nodeEnd
      then (d, Node k nodeStart nodeEnd children cs lit)
           # concat (map (resolvePathDepth (Suc d) st en) children)
      else [])"

text \<open>
  Shallow-to-deep order, an ancestor chain: every node is a child of the node before
  it.
\<close>

fun isChain :: "Node list \<Rightarrow> bool" where
  "isChain [] = True"
| "isChain [node] = True"
| "isChain (node # child # rest) = (child \<in> set (forEachChild node) \<and> isChain (child # rest))"

text \<open>
  No node the walk reaches has two children that contain the interval: at every node,
  at most one child contains it, and the same holds below that child.
\<close>

fun singleBranch :: "int \<Rightarrow> int \<Rightarrow> Node \<Rightarrow> bool" where
  "singleBranch st en (Node k nodeStart nodeEnd children cs lit) =
     (length (filter (containsInterval st en) children) \<le> 1
      \<and> list_all (singleBranch st en) (filter (containsInterval st en) children))"

subsection \<open>nodeToRange\<close>

text \<open>
  \<open>nodeToRange\<close> of the current file: the adjustments for template literals are
  commented out, \<open>ds\<close> and \<open>de\<close> stay 0.
\<close>

definition nodeToRange :: "Node \<Rightarrow> Range" where
  "nodeToRange node =
     (let ds = 0; de = 0
      in \<lparr>start = getFullStart node + ds, end_pos = getEnd node + de\<rparr>)"

text \<open>
  \<open>nodeToRange\<close> of the earlier variant (\<open>extension copy.ts\<close>), declared to return
  \<open>Range | undefined\<close>: the four tests run in order, each overwriting \<open>ds\<close> and \<open>de\<close>.
\<close>

definition nodeToRange_copy :: "Node \<Rightarrow> error + Range option" where
  "nodeToRange_copy node =
     (let (ds, de) = (0, 0);
          (ds, de) = (if kind node = TemplateHead then (2, - 2) else (ds, de));
          (ds, de) = (if kind node = TemplateTail then (1, - 1) else (ds, de));
          (ds, de) = (if kind node = TemplateMiddle then (1, - 2) else (ds, de))
      in if isTemplateSpan node
         then (case literal node of
                 None \<Rightarrow> Inl TypeError
               | Some lit \<Rightarrow>
                   Inr (Some \<lparr>start = getFullStart node + (- 2),
                              end_pos = getEnd node + (- getFullWidth lit + 1)\<rparr>))
         else Inr (Some \<lparr>start = getFullStart node + ds, end_pos = getEnd node + de\<rparr>))"

text \<open>
  The adjustments as a table (the specification asks for one and leaves its entries
  open): the offsets to add to \<open>fullStart\<close> and \<open>end\<close>, by kind, given the full width of
  the literal of a template span.
\<close>

fun boundaryAdjustment :: "SyntaxKind \<Rightarrow> int \<Rightarrow> int \<times> int" where
  "boundaryAdjustment TemplateHead w = (2, - 2)"
| "boundaryAdjustment TemplateTail w = (1, - 1)"
| "boundaryAdjustment TemplateMiddle w = (1, - 2)"
| "boundaryAdjustment TemplateSpan w = (- 2, - w + 1)"
| "boundaryAdjustment k w = (0, 0)"

text \<open>The full width of the literal of a node that has one.\<close>

definition literalFullWidth :: "Node \<Rightarrow> int" where
  "literalFullWidth node = (case literal node of None \<Rightarrow> 0 | Some lit \<Rightarrow> getFullWidth lit)"

section \<open>The editor\<close>

text \<open>
  A \<open>vscode.Selection\<close>, its positions identified with their offsets in the document
  (\<open>doc.offsetAt\<close> and \<open>doc.positionAt\<close> are inverse to each other on them).
  \<open>selection.start\<close> is the smaller and \<open>selection.end\<close> the larger of anchor and active.
\<close>

record Selection =
  anchor :: int
  active :: int

definition selection_start :: "Selection \<Rightarrow> int" where
  "selection_start s = min (anchor s) (active s)"

definition selection_end :: "Selection \<Rightarrow> int" where
  "selection_end s = max (anchor s) (active s)"

text \<open>
  \<open>selection.isEqual(other)\<close> is \<open>Range.isEqual\<close> of the editor's API, which
  \<open>Selection\<close> inherits: true when start and end are equal.
\<close>

definition isEqual :: "Selection \<Rightarrow> Selection \<Rightarrow> bool" where
  "isEqual s other =
     (selection_start s = selection_start other \<and> selection_end s = selection_end other)"

text \<open>
  What the program reads of a \<open>TextEditor\<close>: the language identifier and the text of
  its document, the tree \<open>createSourceFile\<close> returns for that document, and the
  selections.
\<close>

record TextEditor =
  languageId :: string
  getText :: source
  sourceFile :: Node
  selections :: "Selection list"

section \<open>Growth\<close>

text \<open>
  The test of \<open>rangeToNode\<close> and of \<open>TypescriptStrategy.grow\<close> on a candidate.
\<close>

definition isExpansion :: "Range \<Rightarrow> Range \<Rightarrow> bool" where
  "isExpansion outRange rng =
     ((start outRange < start rng \<and> end_pos outRange \<ge> end_pos rng) \<or>
      (end_pos outRange > end_pos rng \<and> start outRange \<le> start rng))"

text \<open>
  \<open>rangeToNode\<close>: the loop runs over \<open>pathOfNodes\<close> from the last index down to 0 and
  returns the first node that passes the test, \<open>undefined\<close> when none does.
\<close>

definition rangeToNode :: "TextEditor \<Rightarrow> Range \<Rightarrow> Node option" where
  "rangeToNode editor rng =
     (let sourceFileNode = sourceFile editor;
          pathOfNodes = getPathOfNodesInRange sourceFileNode (start rng) (end_pos rng)
      in find (\<lambda>node.
                 let candidateRange = nodeToRange node;
                     outRange = collapseWhitespace (getText editor) candidateRange
                 in isExpansion outRange rng)
           (rev pathOfNodes))"

definition growRange :: "TextEditor \<Rightarrow> Range \<Rightarrow> Range option" where
  "growRange editor rng =
     (case rangeToNode editor rng of
        None \<Rightarrow> None
      | Some expansionNode \<Rightarrow>
          (let expansionRange = nodeToRange expansionNode;
               outRange = collapseWhitespace (getText editor) expansionRange
           in Some outRange))"

definition startRanges :: "TextEditor \<Rightarrow> Range list" where
  "startRanges editor =
     map (\<lambda>selection. \<lparr>start = selection_start selection, end_pos = selection_end selection\<rparr>)
       (selections editor)"

text \<open>
  \<open>TypescriptStrategy.grow\<close>: \<open>growRange\<close> on every start range, the \<open>undefined\<close> results
  filtered out.
\<close>

definition TypescriptStrategy_grow :: "TextEditor \<Rightarrow> Range list" where
  "TypescriptStrategy_grow editor =
     map the (filter (\<lambda>rng. rng \<noteq> None) (map (growRange editor) (startRanges editor)))"

subsection \<open>The earlier variant\<close>

text \<open>
  The loop of \<open>TypescriptStrategy.grow\<close> in \<open>extension copy.ts\<close>, over the path from its
  last node (the argument is the reversed path): it yields \<open>expansionRange\<close>.
\<close>

fun expansionRange_copy :: "source \<Rightarrow> Range \<Rightarrow> Node list \<Rightarrow> error + Range option" where
  "expansionRange_copy text rng [] = Inr None"
| "expansionRange_copy text rng (candidate # rest) =
     (case nodeToRange_copy candidate of
        Inl e \<Rightarrow> Inl e
      | Inr None \<Rightarrow> expansionRange_copy text rng rest
      | Inr (Some candidateRange) \<Rightarrow>
          (let outRange = collapseWhitespace text candidateRange
           in if isExpansion outRange rng then Inr (Some candidateRange)
              else expansionRange_copy text rng rest))"

text \<open>The function \<open>TypescriptStrategy.grow\<close> of that file maps over the start ranges.\<close>

definition growRange_copy :: "TextEditor \<Rightarrow> Range \<Rightarrow> error + Range option" where
  "growRange_copy editor rng =
     (let text = getText editor;
          node = sourceFile editor;
          path = getPathOfNodesInRange node (start rng) (end_pos rng)
      in case expansionRange_copy text rng (rev path) of
           Inl e \<Rightarrow> Inl e
         | Inr None \<Rightarrow> Inr None
         | Inr (Some expansionRange) \<Rightarrow> Inr (Some (collapseWhitespace text expansionRange)))"

section \<open>The walk to a JSX element\<close>

text \<open>
  \<open>rangeIsJsxElement\<close> returns \<open>undefined\<close> when \<open>rangeToNode\<close> finds no node.
\<close>

definition rangeIsJsxElement :: "TextEditor \<Rightarrow> Range \<Rightarrow> bool option" where
  "rangeIsJsxElement editor rng =
     (case rangeToNode editor rng of
        None \<Rightarrow> None
      | Some node \<Rightarrow>
          Some (kind node = JsxSelfClosingElement \<or> kind node = JsxOpeningElement
                \<or> kind node = JsxElement))"

definition rLimit :: int where
  "rLimit = 100"

text \<open>
  The loop of \<open>growUntilJsxElement\<close> as a function of \<open>grownRange\<close> and \<open>r\<close>. The loop
  goes on while \<open>!rangeIsJsxElement(editor, grownRange)\<close>, that is unless the value is
  \<open>true\<close>.
\<close>

function growUntilJsxElement_loop :: "TextEditor \<Rightarrow> Range \<Rightarrow> int \<Rightarrow> Range option" where
  "growUntilJsxElement_loop editor grownRange r =
     (if rangeIsJsxElement editor grownRange = Some True then Some grownRange
      else case growRange editor grownRange of
             None \<Rightarrow> None
           | Some grownRange' \<Rightarrow>
               (if r + 1 > rLimit then None
                else growUntilJsxElement_loop editor grownRange' (r + 1)))"
  by pat_completeness auto
termination
  by (relation "measure (\<lambda>(editor, grownRange, r). nat (rLimit - r))") auto

definition growUntilJsxElement :: "TextEditor \<Rightarrow> Range \<Rightarrow> Range option" where
  "growUntilJsxElement editor rng = growUntilJsxElement_loop editor rng 0"

text \<open>
  The same loop with a counter of the calls of \<open>growRange\<close> beside its result. The
  counter is not in the program: it is the number of growth steps the walk performs
  (\<open>r\<close> counts the successful ones only).
\<close>

function growUntilJsxElement_counted ::
  "TextEditor \<Rightarrow> Range \<Rightarrow> int \<Rightarrow> nat \<Rightarrow> Range option \<times> nat" where
  "growUntilJsxElement_counted editor grownRange r calls =
     (if rangeIsJsxElement editor grownRange = Some True then (Some grownRange, calls)
      else case growRange editor grownRange of
             None \<Rightarrow> (None, calls + 1)
           | Some grownRange' \<Rightarrow>
               (if r + 1 > rLimit then (None, calls + 1)
                else growUntilJsxElement_counted editor grownRange' (r + 1) (calls + 1)))"
  by pat_completeness auto
termination
  by (relation "measure (\<lambda>(editor, grownRange, r, calls). nat (rLimit - r))") auto

section \<open>Attribute names\<close>

text \<open>
  \<open>getAllChildNodes\<close>: for every child, the array so far, the child and the child's
  own descendants.
\<close>

fun getAllChildNodes :: "Node \<Rightarrow> Node list" where
  "getAllChildNodes (Node k nodeStart nodeEnd children cs lit) =
     foldl (\<lambda>nodes childNode. nodes @ [childNode] @ getAllChildNodes childNode) [] children"

text \<open>
  The callback \<open>findParams\<close> runs on the children of the \<open>JsxAttributes\<close> node, pushing
  onto \<open>paramRanges\<close>. \<open>nodeToRange\<close> calls \<open>getFullStart\<close> on its argument, which throws
  when the array \<open>getChildren\<close> returned is empty and its first element \<open>undefined\<close>.
\<close>

fun pushAttributeNames :: "TextEditor \<Rightarrow> Node list \<Rightarrow> Range list \<Rightarrow> error + Range list" where
  "pushAttributeNames editor [] paramRanges = Inr paramRanges"
| "pushAttributeNames editor (jsxAttributeNode # rest) paramRanges =
     (if kind jsxAttributeNode \<noteq> JsxAttribute
      then pushAttributeNames editor rest paramRanges
      else case getChildren jsxAttributeNode of
             [] \<Rightarrow> Inl TypeError
           | jsxAttributeIdentifierNode # others \<Rightarrow>
               pushAttributeNames editor rest
                 (paramRanges @
                  [collapseWhitespace (getText editor) (nodeToRange jsxAttributeIdentifierNode)]))"

text \<open>The callback \<open>findParams\<close> runs on every element of \<open>jsxElementRanges\<close>.\<close>

fun pushParams :: "TextEditor \<Rightarrow> Range option list \<Rightarrow> Range list \<Rightarrow> error + Range list" where
  "pushParams editor [] paramRanges = Inr paramRanges"
| "pushParams editor (maybeRange # rest) paramRanges =
     (case maybeRange of
        None \<Rightarrow> pushParams editor rest paramRanges
      | Some rng \<Rightarrow>
          (case rangeToNode editor rng of
             None \<Rightarrow> pushParams editor rest paramRanges
           | Some node \<Rightarrow>
               (let childNodes = getAllChildNodes node
                in case find (\<lambda>childNode. kind childNode = JsxAttributes) childNodes of
                     None \<Rightarrow> pushParams editor rest paramRanges
                   | Some jsxAttributesNode \<Rightarrow>
                       (case pushAttributeNames editor (forEachChild jsxAttributesNode)
                               paramRanges of
                          Inl e \<Rightarrow> Inl e
                        | Inr paramRanges' \<Rightarrow> pushParams editor rest paramRanges'))))"

text \<open>
  What a lookup in the object \<open>strategies\<close> can find: an instance of the one class
  implementing \<open>SelectionStrategy\<close>, or a member the object inherits from
  \<open>Object.prototype\<close>, which has no method \<open>grow\<close>: calling it throws a \<open>TypeError\<close>.
\<close>

datatype SelectionStrategy = TypescriptStrategy | ObjectPrototypeMember

fun strategy_grow :: "SelectionStrategy \<Rightarrow> TextEditor \<Rightarrow> error + Range list" where
  "strategy_grow TypescriptStrategy editor = Inr (TypescriptStrategy_grow editor)"
| "strategy_grow ObjectPrototypeMember editor = Inl TypeError"

definition findParams :: "SelectionStrategy \<Rightarrow> TextEditor \<Rightarrow> error + Range list" where
  "findParams strategy editor =
     (case strategy_grow strategy editor of
        Inl e \<Rightarrow> Inl e
      | Inr ranges \<Rightarrow>
          (let jsxElementRanges = map (\<lambda>rng. growUntilJsxElement editor rng) ranges
           in pushParams editor jsxElementRanges []))"

section \<open>VerySmartSelect\<close>

text \<open>
  The fields of \<open>VerySmartSelect\<close> that change, with what the class reads and writes of
  the editor: \<open>vscode.window.activeTextEditor\<close> and the commands it asks the editor to
  execute, in order. The last element of \<open>selectionsHistory\<close> is the top of the stack.
\<close>

record VerySmartSelect =
  selectionsHistory :: "Selection list list"
  didUpdateSelections :: bool
  activeTextEditor :: "TextEditor option"
  executedCommands :: "string list"

text \<open>
  The field \<open>strategies\<close>, filled by the constructor and never changed. It is a plain
  object (\<open>{}\<close>), so \<open>this.strategies[key]\<close> is \<open>undefined\<close> only for a key that is neither
  one of the six the constructor sets nor the name of a member of \<open>Object.prototype\<close>.
\<close>

definition strategies :: "string \<Rightarrow> SelectionStrategy option" where
  "strategies key =
     (if key \<in> {''typescript'', ''typescriptreact'', ''javascript'', ''javascriptreact'',
                 ''json'', ''jsonc''}
      then Some TypescriptStrategy
      else if key \<in> {''constructor'', ''hasOwnProperty'', ''isPrototypeOf'',
                      ''propertyIsEnumerable'', ''toLocaleString'', ''toString'', ''valueOf'',
                      ''__proto__'', ''__defineGetter__'', ''__defineSetter__'',
                      ''__lookupGetter__'', ''__lookupSetter__''}
      then Some ObjectPrototypeMember
      else None)"

definition areSelectionsEqual :: "Selection list \<Rightarrow> Selection list \<Rightarrow> bool" where
  "areSelectionsEqual sels otherSelections =
     (length sels = length otherSelections \<and>
      list_all (\<lambda>(selection, other). isEqual selection other) (zip sels otherSelections))"

text \<open>The listener of \<open>onDidChangeTextEditorSelection\<close>.\<close>

definition windowSelectionListener :: "VerySmartSelect \<Rightarrow> VerySmartSelect" where
  "windowSelectionListener this =
     (if didUpdateSelections this then this\<lparr>didUpdateSelections := False\<rparr>
      else this\<lparr>selectionsHistory := []\<rparr>)"

definition executeCommand :: "string \<Rightarrow> VerySmartSelect \<Rightarrow> VerySmartSelect" where
  "executeCommand command this = this\<lparr>executedCommands := executedCommands this @ [command]\<rparr>"

definition updateSelections :: "Selection list \<Rightarrow> VerySmartSelect \<Rightarrow> VerySmartSelect" where
  "updateSelections sels this =
     (case activeTextEditor this of
        None \<Rightarrow> this
      | Some editor \<Rightarrow>
          if length sels > 0
          then this\<lparr>didUpdateSelections := True,
                    activeTextEditor := Some (editor\<lparr>selections := sels\<rparr>)\<rparr>
          else this)"

definition updateSelectionsHistory :: "Selection list \<Rightarrow> VerySmartSelect \<Rightarrow> VerySmartSelect" where
  "updateSelectionsHistory sels this =
     (let lastSelections =
            (if length (selectionsHistory this) > 0
             then Some (selectionsHistory this ! (length (selectionsHistory this) - 1))
             else None)
      in case lastSelections of
           None \<Rightarrow> this\<lparr>selectionsHistory := selectionsHistory this @ [sels]\<rparr>
         | Some lastSels \<Rightarrow>
             if \<not> areSelectionsEqual lastSels sels
             then this\<lparr>selectionsHistory := selectionsHistory this @ [sels]\<rparr>
             else this)"

text \<open>
  \<open>grow\<close>. An exception of \<open>findParams\<close> leaves the method before anything is written.
\<close>

definition grow :: "VerySmartSelect \<Rightarrow> error + VerySmartSelect" where
  "grow this =
     (case activeTextEditor this of
        None \<Rightarrow> Inr this
      | Some editor \<Rightarrow>
          (case strategies (languageId editor) of
             None \<Rightarrow> Inr (executeCommand ''editor.action.smartSelect.grow'' this)
           | Some strategy \<Rightarrow>
               (case findParams strategy editor of
                  Inl e \<Rightarrow> Inl e
                | Inr paramRanges \<Rightarrow>
                    if length paramRanges = 0 then Inr this
                    else
                      (let sels = map (\<lambda>rng. \<lparr>anchor = start rng, active = end_pos rng\<rparr>)
                                    paramRanges
                       in Inr (updateSelections sels
                                 (updateSelectionsHistory (selections editor) this))))))"

text \<open>
  \<open>shrink\<close>: \<open>pop\<close> returns \<open>undefined\<close> on the empty array only, and an array, empty or
  not, passes the test \<open>if (selections)\<close>.
\<close>

definition shrink :: "VerySmartSelect \<Rightarrow> VerySmartSelect" where
  "shrink this =
     (if selectionsHistory this = []
      then executeCommand ''editor.action.smartSelect.shrink'' this
      else updateSelections (last (selectionsHistory this))
             (this\<lparr>selectionsHistory := butlast (selectionsHistory this)\<rparr>))"

section \<open>Runs of the engine\<close>

text \<open>
  The state a command leaves: an exception of \<open>grow\<close> reaches the editor's command
  dispatcher and the fields are as before.
\<close>

definition afterGrow :: "VerySmartSelect \<Rightarrow> VerySmartSelect" where
  "afterGrow this = (case grow this of Inl e \<Rightarrow> this | Inr this' \<Rightarrow> this')"

definition currentSelections :: "VerySmartSelect \<Rightarrow> Selection list" where
  "currentSelections this =
     (case activeTextEditor this of None \<Rightarrow> [] | Some editor \<Rightarrow> selections editor)"

text \<open>
  The selections a call of \<open>grow\<close> computes and applies, when it does (a successful
  grow): there is an editor, its language has a strategy, and \<open>findParams\<close> returns a
  list that is not empty.
\<close>

definition grownSelections :: "VerySmartSelect \<Rightarrow> Selection list option" where
  "grownSelections this =
     (case activeTextEditor this of
        None \<Rightarrow> None
      | Some editor \<Rightarrow>
          (case strategies (languageId editor) of
             None \<Rightarrow> None
           | Some strategy \<Rightarrow>
               (case findParams strategy editor of
                  Inl e \<Rightarrow> None
                | Inr paramRanges \<Rightarrow>
                    if paramRanges = [] then None
                    else Some (map (\<lambda>rng. \<lparr>anchor = start rng, active = end_pos rng\<rparr>)
                                 paramRanges))))"

text \<open>
  \<open>n\<close> successful grows, each computing selections that differ (by
  \<open>areSelectionsEqual\<close>) from the current ones and each followed by the editor's
  notification of the change; \<open>None\<close> when one of the grows is not such a grow.
\<close>

fun grows :: "nat \<Rightarrow> VerySmartSelect \<Rightarrow> VerySmartSelect option" where
  "grows 0 this = Some this"
| "grows (Suc n) this =
     (case grownSelections this of
        None \<Rightarrow> None
      | Some sels \<Rightarrow>
          if areSelectionsEqual (currentSelections this) sels then None
          else grows n (windowSelectionListener (afterGrow this)))"

text \<open>\<open>n\<close> shrinks, each followed by the editor's notification.\<close>

fun shrinks :: "nat \<Rightarrow> VerySmartSelect \<Rightarrow> VerySmartSelect" where
  "shrinks 0 this = this"
| "shrinks (Suc n) this = shrinks n (windowSelectionListener (shrink this))"

text \<open>
  The top of the history is not equal to the current selections (so that the next
  grow records them).
\<close>

definition topDiffers :: "VerySmartSelect \<Rightarrow> bool" where
  "topDiffers this =
     (selectionsHistory this = [] \<or>
      \<not> areSelectionsEqual (last (selectionsHistory this)) (currentSelections this))"

text \<open>
  What happens to the engine: the two commands, and the editor reporting a change of
  the selections (which are then the editor's selections).
\<close>

datatype event = Grow | Shrink | SelectionChanged "Selection list"

fun step :: "event \<Rightarrow> VerySmartSelect \<Rightarrow> VerySmartSelect" where
  "step Grow this = afterGrow this"
| "step Shrink this = shrink this"
| "step (SelectionChanged sels) this =
     windowSelectionListener
       (this\<lparr>activeTextEditor :=
               map_option (\<lambda>editor. editor\<lparr>selections := sels\<rparr>) (activeTextEditor this)\<rparr>)"

fun run :: "event list \<Rightarrow> VerySmartSelect \<Rightarrow> VerySmartSelect" where
  "run [] this = this"
| "run (ev # evs) this = run evs (step ev this)"

text \<open>The command assigns \<open>editor.selections\<close>: the engine applies its own selections.\<close>

fun applies :: "event \<Rightarrow> VerySmartSelect \<Rightarrow> bool" where
  "applies Grow this = (grownSelections this \<noteq> None)"
| "applies Shrink this =
     (selectionsHistory this \<noteq> [] \<and> last (selectionsHistory this) \<noteq> []
      \<and> activeTextEditor this \<noteq> None)"
| "applies (SelectionChanged sels) this = False"

text \<open>
  Whether, at the end of a run, the engine has applied selections since the last change
  the editor reported (\<open>pending\<close> says so for the start of the run).
\<close>

fun appliedSinceLastChange :: "bool \<Rightarrow> event list \<Rightarrow> VerySmartSelect \<Rightarrow> bool" where
  "appliedSinceLastChange pending [] this = pending"
| "appliedSinceLastChange pending (ev # evs) this =
     appliedSinceLastChange
       (case ev of SelectionChanged sels \<Rightarrow> False | _ \<Rightarrow> pending \<or> applies ev this)
       evs (step ev this)"

section \<open>Example documents\<close>

text \<open>
  Kinds of the compiler the program does not name, by numbers of its \<open>SyntaxKind\<close>
  enumeration (the numbers change between versions of the compiler; the program
  never reads them).
\<close>

abbreviation EndOfFileToken :: SyntaxKind where "EndOfFileToken \<equiv> OtherKind 1"
abbreviation Identifier :: SyntaxKind where "Identifier \<equiv> OtherKind 80"
abbreviation ExpressionStatement :: SyntaxKind where "ExpressionStatement \<equiv> OtherKind 244"
abbreviation JsxClosingElement :: SyntaxKind where "JsxClosingElement \<equiv> OtherKind 287"
abbreviation SourceFileKind :: SyntaxKind where "SourceFileKind \<equiv> OtherKind 312"

text \<open>
  A node without children, and a node whose \<open>getChildren\<close> are the children
  \<open>forEachChild\<close> visits (the program reads \<open>getChildren\<close> of attributes only, whose
  first child is the name in both lists).
\<close>

definition leaf :: "SyntaxKind \<Rightarrow> int \<Rightarrow> int \<Rightarrow> Node" where
  "leaf k s e = Node k s e [] [] None"

definition parent :: "SyntaxKind \<Rightarrow> int \<Rightarrow> int \<Rightarrow> Node list \<Rightarrow> Node" where
  "parent k s e children = Node k s e children children None"

text \<open>
  The tree of the 24 units \<^verbatim>\<open><div a><Foo bar /></div>\<close>; the full start of a name
  includes the blank before it.
\<close>

definition divText :: source where
  "divText = js ''<div a><Foo bar /></div>''"

definition divTree :: Node where
  "divTree =
     parent SourceFileKind 0 24
       [parent ExpressionStatement 0 24
          [parent JsxElement 0 24
             [parent JsxOpeningElement 0 7
                [leaf Identifier 1 4,
                 parent JsxAttributes 4 6 [parent JsxAttribute 4 6 [leaf Identifier 4 6]]],
              parent JsxSelfClosingElement 7 18
                [leaf Identifier 8 11,
                 parent JsxAttributes 11 15 [parent JsxAttribute 11 15 [leaf Identifier 11 15]]],
              parent JsxClosingElement 18 24 [leaf Identifier 20 23]]],
        leaf EndOfFileToken 24 24]"

definition divEditor :: "Selection list \<Rightarrow> TextEditor" where
  "divEditor sels =
     \<lparr>languageId = ''typescriptreact'', getText = divText, sourceFile = divTree,
      selections = sels\<rparr>"

text \<open>The tree of the five units \<^verbatim>\<open>a.b+c\<close>.\<close>

abbreviation PlusToken :: SyntaxKind where "PlusToken \<equiv> OtherKind 40"
abbreviation PropertyAccessExpression :: SyntaxKind where "PropertyAccessExpression \<equiv> OtherKind 211"
abbreviation BinaryExpression :: SyntaxKind where "BinaryExpression \<equiv> OtherKind 226"

definition sumTree :: Node where
  "sumTree =
     parent SourceFileKind 0 5
       [parent ExpressionStatement 0 5
          [parent BinaryExpression 0 5
             [parent PropertyAccessExpression 0 3 [leaf Identifier 0 1, leaf Identifier 2 3],
              leaf PlusToken 3 4,
              leaf Identifier 4 5]],
        leaf EndOfFileToken 5 5]"

definition sumEditor :: TextEditor where
  "sumEditor =
     \<lparr>languageId = ''typescript'', getText = js ''a.b+c'', sourceFile = sumTree,
      selections = [\<lparr>anchor = 3, active = 3\<rparr>]\<rparr>"

text \<open>
  A document of 101 units \<open>x\<close> whose tree is a chain of 102 nodes, the node at depth
  \<open>101 - k\<close> spanning \<open>[0, k)\<close>, as nested expressions are.
\<close>

fun nested :: "nat \<Rightarrow> Node" where
  "nested 0 = Node Identifier 0 0 [] [] None"
| "nested (Suc n) = Node Identifier 0 (1 + int n) [nested n] [nested n] None"

definition nestedEditor :: TextEditor where
  "nestedEditor =
     \<lparr>languageId = ''typescript'', getText = replicate 101 120, sourceFile = nested 101,
      selections = [\<lparr>anchor = 0, active = 0\<rparr>]\<rparr>"

text \<open>
  A new engine on the first document, the name \<open>a\<close> selected.
\<close>

definition divSession :: VerySmartSelect where
  "divSession =
     \<lparr>selectionsHistory = [], didUpdateSelections = False,
      activeTextEditor = Some (divEditor [\<lparr>anchor = 5, active = 6\<rparr>]),
      executedCommands = []\<rparr>"

text \<open>A new engine on the first document, the cursor inside the name \<open>bar\<close>.\<close>

definition cursorSession :: VerySmartSelect where
  "cursorSession =
     \<lparr>selectionsHistory = [], didUpdateSelections = False,
      activeTextEditor = Some (divEditor [\<lparr>anchor = 13, active = 13\<rparr>]),
      executedCommands = []\<rparr>"

text \<open>
  The tree of the 15 units \<^verbatim>\<open><Foo bar baz />\<close>, with the \<open>getChildren\<close> of the second
  attribute as given, and a new engine on it with the name \<open>bar\<close> selected.
\<close>

definition fooTree :: "Node list \<Rightarrow> Node" where
  "fooTree bazChildren =
     parent SourceFileKind 0 15
       [parent ExpressionStatement 0 15
          [parent JsxSelfClosingElement 0 15
             [leaf Identifier 1 4,
              parent JsxAttributes 4 12
                [parent JsxAttribute 4 8 [leaf Identifier 4 8],
                 Node JsxAttribute 8 12 [leaf Identifier 8 12] bazChildren None]]],
        leaf EndOfFileToken 15 15]"

definition fooEditor :: "Node list \<Rightarrow> TextEditor" where
  "fooEditor bazChildren =
     \<lparr>languageId = ''typescriptreact'', getText = js ''<Foo bar baz />'',
      sourceFile = fooTree bazChildren, selections = [\<lparr>anchor = 5, active = 8\<rparr>]\<rparr>"

definition fooSession :: "Node list \<Rightarrow> VerySmartSelect" where
  "fooSession bazChildren =
     \<lparr>selectionsHistory = [], didUpdateSelections = False,
      activeTextEditor = Some (fooEditor bazChildren), executedCommands = []\<rparr>"

section \<open>Properties of collapseWhitespace\<close>

declare leftScan.simps [simp del] rightScan.simps [simp del]

lemma WHITESPACE_test_charAt:
  "WHITESPACE_test (charAt source i) =
     (0 \<le> i \<and> i < int (length source) \<and> isWhiteSpaceUnit (source ! nat i))"
  by (auto simp add: WHITESPACE_test_def charAt_def)

lemma leftScan_acc: "leftScan source i n = n + leftScan source i 0"
proof (induction "nat (int (length source) - i)" arbitrary: i n)
  case 0
  then show ?case by (simp add: leftScan.simps)
next
  case (Suc m)
  show ?case
  proof (cases "i < int (length source) \<and> WHITESPACE_test (charAt source i)")
    case True
    have m: "m = nat (int (length source) - (i + 1))" using Suc.hyps(2) by linarith
    have a: "leftScan source i n = leftScan source (i + 1) (n + 1)"
      using True by (subst leftScan.simps) simp
    have b: "leftScan source i 0 = leftScan source (i + 1) 1"
      using True by (subst leftScan.simps) simp
    show ?thesis
      using Suc.hyps(1) [OF m, of "n + 1"] Suc.hyps(1) [OF m, of 1] a b by simp
  next
    case False
    then show ?thesis by (simp add: leftScan.simps)
  qed
qed

lemma rightScan_acc: "rightScan source j n = n + rightScan source j 0"
proof (induction "nat (j + 1)" arbitrary: j n)
  case 0
  then show ?case by (simp add: rightScan.simps)
next
  case (Suc m)
  show ?case
  proof (cases "j \<ge> 0 \<and> WHITESPACE_test (charAt source j)")
    case True
    have m: "m = nat (j - 1 + 1)" using Suc.hyps(2) by linarith
    have a: "rightScan source j n = rightScan source (j - 1) (n + 1)"
      using True by (subst rightScan.simps) simp
    have b: "rightScan source j 0 = rightScan source (j - 1) 1"
      using True by (subst rightScan.simps) simp
    show ?thesis
      using Suc.hyps(1) [OF m, of "n + 1"] Suc.hyps(1) [OF m, of 1] a b by simp
  next
    case False
    then show ?thesis by (simp add: rightScan.simps)
  qed
qed

text \<open>Unfolding the scans once, from a zero counter.\<close>

lemma leftScan_0:
  "leftScan source i 0 =
     (if i < int (length source) \<and> WHITESPACE_test (charAt source i)
      then 1 + leftScan source (i + 1) 0 else 0)"
  by (subst leftScan.simps) (simp add: leftScan_acc [of source "i + 1" 1])

lemma rightScan_0:
  "rightScan source j 0 =
     (if j \<ge> 0 \<and> WHITESPACE_test (charAt source j)
      then 1 + rightScan source (j - 1) 0 else 0)"
  by (subst rightScan.simps) (simp add: rightScan_acc [of source "j - 1" 1])

lemma leftScan_nonneg: "0 \<le> leftScan source i 0"
proof (induction "nat (int (length source) - i)" arbitrary: i)
  case 0
  then show ?case by (simp add: leftScan_0)
next
  case (Suc m)
  have "m = nat (int (length source) - (i + 1))" using Suc.hyps(2) by linarith
  from Suc.hyps(1) [OF this] show ?case by (subst leftScan_0) simp
qed

lemma rightScan_nonneg: "0 \<le> rightScan source j 0"
proof (induction "nat (j + 1)" arbitrary: j)
  case 0
  then show ?case by (simp add: rightScan_0)
next
  case (Suc m)
  have "m = nat (j - 1 + 1)" using Suc.hyps(2) by linarith
  from Suc.hyps(1) [OF this] show ?case by (subst rightScan_0) simp
qed

text \<open>Where a scan stops, another scan does not move.\<close>

lemma leftScan_stop: "leftScan source (i + leftScan source i 0) 0 = 0"
proof (induction "nat (int (length source) - i)" arbitrary: i)
  case 0
  then show ?case by (simp add: leftScan_0)
next
  case (Suc m)
  have m: "m = nat (int (length source) - (i + 1))" using Suc.hyps(2) by linarith
  show ?case
  proof (cases "i < int (length source) \<and> WHITESPACE_test (charAt source i)")
    case True
    then have "leftScan source i 0 = 1 + leftScan source (i + 1) 0"
      by (subst leftScan_0) simp
    then show ?thesis using Suc.hyps(1) [OF m] by (simp add: add.assoc)
  next
    case False
    then have z: "leftScan source i 0 = 0" by (subst leftScan_0) auto
    show ?thesis unfolding z using z by simp
  qed
qed

lemma rightScan_stop: "rightScan source (j - rightScan source j 0) 0 = 0"
proof (induction "nat (j + 1)" arbitrary: j)
  case 0
  then show ?case by (simp add: rightScan_0)
next
  case (Suc m)
  have m: "m = nat (j - 1 + 1)" using Suc.hyps(2) by linarith
  show ?case
  proof (cases "j \<ge> 0 \<and> WHITESPACE_test (charAt source j)")
    case True
    then have "rightScan source j 0 = 1 + rightScan source (j - 1) 0"
      by (subst rightScan_0) simp
    then show ?thesis using Suc.hyps(1) [OF m] by (simp add: algebra_simps)
  next
    case False
    then have z: "rightScan source j 0 = 0" by (subst rightScan_0) auto
    show ?thesis unfolding z using z by simp
  qed
qed

text \<open>
  Claim C9. \<open>collapseWhitespace\<close> is idempotent: for every source text and every
  interval \<open>x\<close> (any pair of integers, in the text or not), collapsing the collapsed
  interval again gives the collapsed interval.
\<close>

theorem collapseWhitespace_idempotent:
  "collapseWhitespace source (collapseWhitespace source x) = collapseWhitespace source x"
proof -
  have l: "leftScan source (start x + leftScan source (start x) 0) 0 = 0"
    by (rule leftScan_stop)
  have "rightScan source (end_pos x - 1 - rightScan source (end_pos x - 1) 0) 0 = 0"
    by (rule rightScan_stop)
  then have r: "rightScan source (end_pos x - rightScan source (end_pos x - 1) 0 - 1) 0 = 0"
    by (simp add: algebra_simps)
  show ?thesis
    by (simp add: collapseWhitespace_def Let_def l r)
qed

text \<open>A scan does not pass a unit that is not white space.\<close>

lemma leftScan_le:
  "i \<le> k \<Longrightarrow> k < int (length source) \<Longrightarrow> \<not> isWhiteSpaceUnit (source ! nat k)
     \<Longrightarrow> leftScan source i 0 \<le> k - i"
proof (induction "nat (int (length source) - i)" arbitrary: i)
  case 0
  then show ?case by simp
next
  case (Suc m)
  have m: "m = nat (int (length source) - (i + 1))" using Suc.hyps(2) by linarith
  show ?case
  proof (cases "i = k")
    case True
    then have "\<not> WHITESPACE_test (charAt source i)"
      using Suc.prems by (simp add: WHITESPACE_test_charAt)
    then show ?thesis by (subst leftScan_0) (simp add: True)
  next
    case False
    then have "i + 1 \<le> k" using Suc.prems by simp
    from Suc.hyps(1) [OF m this Suc.prems(2,3)] Suc.prems(1) show ?thesis
      by (subst leftScan_0) auto
  qed
qed

lemma rightScan_le:
  "k \<le> j \<Longrightarrow> 0 \<le> k \<Longrightarrow> k < int (length source) \<Longrightarrow> \<not> isWhiteSpaceUnit (source ! nat k)
     \<Longrightarrow> rightScan source j 0 \<le> j - k"
proof (induction "nat (j + 1)" arbitrary: j)
  case 0
  then show ?case by simp
next
  case (Suc m)
  have m: "m = nat (j - 1 + 1)" using Suc.hyps(2) by linarith
  show ?case
  proof (cases "j = k")
    case True
    then have "\<not> WHITESPACE_test (charAt source j)"
      using Suc.prems by (simp add: WHITESPACE_test_charAt)
    then show ?thesis by (subst rightScan_0) (simp add: True)
  next
    case False
    then have "k \<le> j - 1" using Suc.prems by simp
    from Suc.hyps(1) [OF m this Suc.prems(2,3,4)] Suc.prems(1) show ?thesis
      by (subst rightScan_0) auto
  qed
qed

text \<open>
  Claim C2, as amended. The scans are bounded by the text, not by the other end of the
  interval, so they stop inside the interval only when it holds a unit that is not
  white space: for an interval with \<open>0 \<le> start \<le> end \<le> length text\<close> that contains
  such a unit, the result lies inside the input, satisfies \<open>start < end\<close> and the
  Interval invariant.
\<close>

theorem collapseWhitespace_keeps_order:
  assumes "validInterval source rng" and "hasNonWhitespace source rng"
  shows "validInterval source (collapseWhitespace source rng)
         \<and> start rng \<le> start (collapseWhitespace source rng)
         \<and> start (collapseWhitespace source rng) < end_pos (collapseWhitespace source rng)
         \<and> end_pos (collapseWhitespace source rng) \<le> end_pos rng"
proof -
  from assms(2) obtain k where k: "nat (start rng) \<le> k" "k < nat (end_pos rng)"
      "k < length source" "\<not> isWhiteSpaceUnit (source ! k)"
    by (auto simp: hasNonWhitespace_def)
  from assms(1) have v: "0 \<le> start rng" "start rng \<le> end_pos rng"
      "end_pos rng \<le> int (length source)"
    by (simp_all add: validInterval_def)
  have l: "leftScan source (start rng) 0 \<le> int k - start rng"
    using k v by (intro leftScan_le) auto
  have r: "rightScan source (end_pos rng - 1) 0 \<le> (end_pos rng - 1) - int k"
    using k v by (intro rightScan_le) auto
  show ?thesis
    using l r v leftScan_nonneg [of source "start rng"]
      rightScan_nonneg [of source "end_pos rng - 1"]
    by (simp add: collapseWhitespace_def Let_def validInterval_def)
qed

theorem collapseWhitespace_keeps_order_witness:
  "validInterval (js '' ab '') \<lparr>start = 0, end_pos = 4\<rparr>
   \<and> hasNonWhitespace (js '' ab '') \<lparr>start = 0, end_pos = 4\<rparr>
   \<and> collapseWhitespace (js '' ab '') \<lparr>start = 0, end_pos = 4\<rparr> = \<lparr>start = 1, end_pos = 3\<rparr>
   \<and> validInterval (js '' ab '') (collapseWhitespace (js '' ab '') \<lparr>start = 0, end_pos = 4\<rparr>)"
proof -
  have v: "validInterval (js '' ab '') \<lparr>start = 0, end_pos = 4\<rparr>"
    by code_simp
  have h: "hasNonWhitespace (js '' ab '') \<lparr>start = 0, end_pos = 4\<rparr>"
    by code_simp
  have c: "collapseWhitespace (js '' ab '') \<lparr>start = 0, end_pos = 4\<rparr> = \<lparr>start = 1, end_pos = 3\<rparr>"
    by code_simp
  from collapseWhitespace_keeps_order [OF v h] v h c show ?thesis
    by simp
qed

text \<open>
  Claim C2 as stated fails: in the text \<open>a b\<close> the interval \<open>[1, 2)\<close> holding the
  blank satisfies the invariant; the forward scan moves \<open>start\<close> to 2 and the backward
  scan moves \<open>end\<close> to 1.
\<close>

theorem collapseWhitespace_crosses:
  "validInterval (js ''a b'') \<lparr>start = 1, end_pos = 2\<rparr>
   \<and> collapseWhitespace (js ''a b'') \<lparr>start = 1, end_pos = 2\<rparr> = \<lparr>start = 2, end_pos = 1\<rparr>
   \<and> \<not> start (collapseWhitespace (js ''a b'') \<lparr>start = 1, end_pos = 2\<rparr>)
        \<le> end_pos (collapseWhitespace (js ''a b'') \<lparr>start = 1, end_pos = 2\<rparr>)"
  by code_simp

section \<open>Properties of path resolution and growth\<close>

lemma resolvePathDepth_nodes:
  "map snd (resolvePathDepth d st en node) = resolvePath st en node"
proof (induction node arbitrary: d)
  case (Node k nodeStart nodeEnd children cs lit)
  show ?case by (simp add: map_concat o_def Node.IH(1) cong: map_cong)
qed

lemma resolvePath_outside:
  "\<not> containsInterval st en node \<Longrightarrow> resolvePath st en node = []"
  by (cases node) (auto simp: containsInterval_def)

lemma resolvePath_inside:
  "containsInterval st en node \<Longrightarrow>
     resolvePath st en node = node # concat (map (resolvePath st en) (forEachChild node))"
  by (cases node) (auto simp: containsInterval_def)

lemma resolvePathDepth_outside:
  "\<not> containsInterval st en node \<Longrightarrow> resolvePathDepth d st en node = []"
  by (cases node) (auto simp: containsInterval_def)

lemma resolvePathDepth_inside:
  "containsInterval st en node \<Longrightarrow>
     resolvePathDepth d st en node
       = (d, node) # concat (map (resolvePathDepth (Suc d) st en) (forEachChild node))"
  by (cases node) (auto simp: containsInterval_def)

lemma singleBranch_children:
  "singleBranch st en node =
     (length (filter (containsInterval st en) (forEachChild node)) \<le> 1
      \<and> list_all (singleBranch st en) (filter (containsInterval st en) (forEachChild node)))"
  by (cases node) simp

lemma concat_map_filter:
  "(\<And>x. x \<in> set xs \<Longrightarrow> \<not> P x \<Longrightarrow> f x = []) \<Longrightarrow>
     concat (map f xs) = concat (map f (filter P xs))"
  by (induction xs) auto

lemma upt_shift: "[d ..< d + Suc n] = d # [Suc d ..< Suc d + n]"
  by (subst upt_rec) simp

text \<open>With a single branch the walk is a chain whose depths count up.\<close>

lemma singleBranch_chain:
  "singleBranch st en node \<Longrightarrow>
     isChain (resolvePath st en node)
     \<and> map fst (resolvePathDepth d st en node)
         = [d ..< d + length (resolvePath st en node)]"
proof (induction node arbitrary: d)
  case (Node k nodeStart nodeEnd children cs lit)
  let ?node = "Node k nodeStart nodeEnd children cs lit"
  show ?case
  proof (cases "containsInterval st en ?node")
    case False
    then show ?thesis
      by (simp add: resolvePath_outside resolvePathDepth_outside
          del: resolvePath.simps resolvePathDepth.simps)
  next
    case True
    let ?inside = "filter (containsInterval st en) children"
    from Node.prems have le: "length ?inside \<le> 1"
      and sb: "list_all (singleBranch st en) ?inside"
      by simp_all
    have p: "concat (map (resolvePath st en) children)
               = concat (map (resolvePath st en) ?inside)"
      by (rule concat_map_filter) (rule resolvePath_outside)
    have pd: "concat (map (resolvePathDepth (Suc d) st en) children)
               = concat (map (resolvePathDepth (Suc d) st en) ?inside)"
      by (rule concat_map_filter) (rule resolvePathDepth_outside)
    show ?thesis
    proof (cases ?inside)
      case Nil
      have r: "resolvePath st en ?node = [?node]"
        unfolding resolvePath_inside [OF True] Node.sel p by (simp add: Nil)
      have rd: "resolvePathDepth d st en ?node = [(d, ?node)]"
        unfolding resolvePathDepth_inside [OF True] Node.sel pd by (simp add: Nil)
      show ?thesis unfolding r rd by simp
    next
      case (Cons child others)
      with le have one: "?inside = [child]" by simp
      then have "child \<in> set ?inside" by simp
      then have mem: "child \<in> set children" and c: "containsInterval st en child"
        by simp_all
      from sb one have "singleBranch st en child" by simp
      from Node.IH(1) [OF mem this, of "Suc d"]
      have ch: "isChain (resolvePath st en child)"
        and dp: "map fst (resolvePathDepth (Suc d) st en child)
                   = [Suc d ..< Suc d + length (resolvePath st en child)]"
        by simp_all
      have r: "resolvePath st en ?node = ?node # resolvePath st en child"
        unfolding resolvePath_inside [OF True] Node.sel p by (simp add: one)
      have rd: "resolvePathDepth d st en ?node
                  = (d, ?node) # resolvePathDepth (Suc d) st en child"
        unfolding resolvePathDepth_inside [OF True] Node.sel pd by (simp add: one)
      obtain tail where hd: "resolvePath st en child = child # tail"
        using resolvePath_inside [OF c] by blast
      have "isChain (resolvePath st en ?node)"
        using ch mem unfolding r hd by simp
      moreover have "map fst (resolvePathDepth d st en ?node)
         = [d ..< d + length (resolvePath st en ?node)]"
        unfolding r rd list.map fst_conv dp list.size(4) by (simp only: upt_shift [symmetric] add_Suc_right One_nat_def add_0_right)
      ultimately show ?thesis by simp
    qed
  qed
qed


lemma foldl_appends:
  assumes "\<And>c p. c \<in> set cs \<Longrightarrow> f p c = p @ g c"
  shows "foldl f acc cs = acc @ concat (map g cs)"
  using assms by (induction cs arbitrary: acc) simp_all

lemma pathToPositionInternal_resolvePath:
  "pathToPositionInternal node st en path = path @ resolvePath st en node"
proof (induction node arbitrary: path)
  case (Node k nodeStart nodeEnd children cs lit)
  have "foldl (\<lambda>path child. pathToPositionInternal child st en path) acc children
        = acc @ concat (map (resolvePath st en) children)" for acc
    by (rule foldl_appends) (simp add: Node.IH(1))
  then show ?case by auto
qed

lemma resolvePath_contains:
  "n \<in> set (resolvePath st en node) \<Longrightarrow> st \<ge> getFullStart n \<and> en \<le> getEnd n"
proof (induction node)
  case (Node k nodeStart nodeEnd children cs lit)
  then show ?case by (auto split: if_splits)
qed

text \<open>
  Claim C7, as amended. Path resolution is the pruned pre-order walk: the result for a
  node is empty when the node fails the containment test (\<open>interval.start \<ge>
  node.fullStart\<close> and \<open>interval.end \<le> node.end\<close>), so that nothing below it appears, and
  otherwise the node followed by the results for its children, in order; every node of
  the result passes the test; the interval may be empty (\<open>st = en\<close>). The result is
  in shallow-to-deep order, every node a child of the node before it and the depths
  counting up from 0, when no node the walk reaches has two children that contain the
  interval.
\<close>

theorem getPathOfNodesInRange_preorder:
  "getPathOfNodesInRange root st en = resolvePath st en root
   \<and> getPathOfNodesInRange root st en = map snd (resolvePathDepth 0 st en root)
   \<and> (\<forall>node \<in> set (getPathOfNodesInRange root st en).
         st \<ge> getFullStart node \<and> en \<le> getEnd node)
   \<and> (getPathOfNodesInRange root st en =
        (if st \<ge> getFullStart root \<and> en \<le> getEnd root
         then root # concat (map (\<lambda>child. getPathOfNodesInRange child st en) (forEachChild root))
         else []))
   \<and> (singleBranch st en root \<longrightarrow>
        isChain (getPathOfNodesInRange root st en)
        \<and> map fst (resolvePathDepth 0 st en root)
            = [0 ..< length (getPathOfNodesInRange root st en)])"
proof -
  have eq: "getPathOfNodesInRange node st en = resolvePath st en node" for node
    by (simp add: getPathOfNodesInRange_def pathToPositionInternal_resolvePath)
  have unfold: "resolvePath st en root =
        (if st \<ge> getFullStart root \<and> en \<le> getEnd root
         then root # concat (map (resolvePath st en) (forEachChild root))
         else [])"
    by (cases root) simp
  have a: "getPathOfNodesInRange root st en = resolvePath st en root"
    by (rule eq)
  have a': "getPathOfNodesInRange root st en = map snd (resolvePathDepth 0 st en root)"
    unfolding eq by (rule resolvePathDepth_nodes [symmetric])
  have b: "\<forall>node \<in> set (getPathOfNodesInRange root st en).
         st \<ge> getFullStart node \<and> en \<le> getEnd node"
    unfolding eq using resolvePath_contains by blast
  have c: "getPathOfNodesInRange root st en =
        (if st \<ge> getFullStart root \<and> en \<le> getEnd root
         then root # concat (map (\<lambda>child. getPathOfNodesInRange child st en) (forEachChild root))
         else [])"
    unfolding eq by (rule unfold)
  have d: "singleBranch st en root \<longrightarrow>
        isChain (getPathOfNodesInRange root st en)
        \<and> map fst (resolvePathDepth 0 st en root)
            = [0 ..< length (getPathOfNodesInRange root st en)]"
    unfolding eq using singleBranch_chain [of st en root 0] by simp
  from a a' b c d show ?thesis by blast
qed

text \<open>
  The theorem in \<^verbatim>\<open><div a><Foo bar /></div>\<close> at the cursor inside \<open>bar\<close>, and at a
  node that does not contain the cursor.
\<close>

theorem getPathOfNodesInRange_preorder_witness:
  "singleBranch 13 13 divTree
   \<and> map kind (getPathOfNodesInRange divTree 13 13) =
       [SourceFileKind, ExpressionStatement, JsxElement, JsxSelfClosingElement, JsxAttributes,
        JsxAttribute, Identifier]
   \<and> isChain (getPathOfNodesInRange divTree 13 13)
   \<and> map fst (resolvePathDepth 0 13 13 divTree) = [0, 1, 2, 3, 4, 5, 6]
   \<and> list_all (\<lambda>node. 13 \<ge> getFullStart node \<and> 13 \<le> getEnd node)
        (getPathOfNodesInRange divTree 13 13)
   \<and> getPathOfNodesInRange (leaf Identifier 8 11) 13 13 = []"
proof -
  have s: "singleBranch 13 13 divTree"
    by code_simp
  have k: "map kind (getPathOfNodesInRange divTree 13 13) =
       [SourceFileKind, ExpressionStatement, JsxElement, JsxSelfClosingElement, JsxAttributes,
        JsxAttribute, Identifier]"
    by code_simp
  then have "length (map kind (getPathOfNodesInRange divTree 13 13)) = 7"
    by simp
  then have l: "length (getPathOfNodesInRange divTree 13 13) = 7"
    by simp
  have u: "[0 ..< 7] = [0, 1, 2, 3, 4, 5, 6 :: nat]"
    by code_simp
  have e: "getPathOfNodesInRange (leaf Identifier 8 11) 13 13 = []"
    by code_simp
  note path = getPathOfNodesInRange_preorder [of divTree 13 13]
  from path s have c: "isChain (getPathOfNodesInRange divTree 13 13)"
    and "map fst (resolvePathDepth 0 13 13 divTree)
           = [0 ..< length (getPathOfNodesInRange divTree 13 13)]"
    by blast+
  then have d: "map fst (resolvePathDepth 0 13 13 divTree) = [0, 1, 2, 3, 4, 5, 6]"
    by (simp only: l u)
  from path have "\<forall>node \<in> set (getPathOfNodesInRange divTree 13 13).
         13 \<ge> getFullStart node \<and> 13 \<le> getEnd node"
    by blast
  then have a: "list_all (\<lambda>node. 13 \<ge> getFullStart node \<and> 13 \<le> getEnd node)
        (getPathOfNodesInRange divTree 13 13)"
    by (simp only: list_all_iff)
  from s k c d a e show ?thesis by blast
qed

text \<open>
  Claim C7 as stated fails. In \<^verbatim>\<open>a.b+c\<close> the cursor at 3 lies on the common boundary
  of \<open>a.b\<close> and \<open>+\<close>: the path has the depths 0, 1, 2, 3, 4, 3, the token \<open>+\<close> coming
  after the deeper name \<open>b\<close>, of which it is no child; growth takes the last node of
  the path and selects \<open>+\<close>.
\<close>

theorem path_not_shallow_to_deep:
  "map kind (getPathOfNodesInRange sumTree 3 3) =
     [SourceFileKind, ExpressionStatement, BinaryExpression, PropertyAccessExpression,
      Identifier, PlusToken]
   \<and> getPathOfNodesInRange sumTree 3 3 = map snd (resolvePathDepth 0 3 3 sumTree)
   \<and> map fst (resolvePathDepth 0 3 3 sumTree) = [0, 1, 2, 3, 4, 3]
   \<and> \<not> sorted (map fst (resolvePathDepth 0 3 3 sumTree))
   \<and> \<not> isChain (getPathOfNodesInRange sumTree 3 3)
   \<and> growRange sumEditor \<lparr>start = 3, end_pos = 3\<rparr> = Some \<lparr>start = 3, end_pos = 4\<rparr>"
  by code_simp


lemma isExpansion_superset:
  "isExpansion outRange rng \<Longrightarrow>
     start outRange \<le> start rng \<and> end_pos outRange \<ge> end_pos rng
     \<and> (start outRange < start rng \<or> end_pos outRange > end_pos rng)"
  by (auto simp: isExpansion_def)

lemma rangeToNode_Some:
  "rangeToNode editor rng = Some node \<Longrightarrow>
     node \<in> set (getPathOfNodesInRange (sourceFile editor) (start rng) (end_pos rng))
     \<and> isExpansion (collapseWhitespace (getText editor) (nodeToRange node)) rng"
proof -
  assume a: "rangeToNode editor rng = Some node"
  let ?P = "\<lambda>node. isExpansion (collapseWhitespace (getText editor) (nodeToRange node)) rng"
  let ?path = "getPathOfNodesInRange (sourceFile editor) (start rng) (end_pos rng)"
  from a have f: "find ?P (rev ?path) = Some node"
    by (simp add: rangeToNode_def Let_def)
  then obtain i where "i < length (rev ?path)" "?P (rev ?path ! i)" "node = rev ?path ! i"
    unfolding find_Some_iff by blast
  then have "node \<in> set (rev ?path)" "?P node"
    using nth_mem by blast+
  then show ?thesis by simp
qed

lemma growRange_Some:
  "growRange editor rng = Some outRange \<Longrightarrow> isExpansion outRange rng"
  by (cases "rangeToNode editor rng")
     (auto simp: growRange_def Let_def dest: rangeToNode_Some)

lemma expansionRange_copy_Some:
  "expansionRange_copy text rng nodes = Inr (Some expansionRange) \<Longrightarrow>
     isExpansion (collapseWhitespace text expansionRange) rng"
proof (induction nodes)
  case Nil
  then show ?case by simp
next
  case (Cons candidate rest)
  show ?case
  proof (cases "nodeToRange_copy candidate")
    case (Inl e)
    with Cons.prems show ?thesis by simp
  next
    case (Inr maybe)
    show ?thesis
    proof (cases maybe)
      case None
      with Inr Cons show ?thesis by simp
    next
      case (Some candidateRange)
      with Inr Cons show ?thesis
        by (cases "isExpansion (collapseWhitespace text candidateRange) rng")
           (simp_all add: Let_def)
    qed
  qed
qed

lemma growRange_copy_Some:
  "growRange_copy editor rng = Inr (Some outRange) \<Longrightarrow> isExpansion outRange rng"
proof -
  assume a: "growRange_copy editor rng = Inr (Some outRange)"
  let ?r = "expansionRange_copy (getText editor) rng
     (rev (getPathOfNodesInRange (sourceFile editor) (start rng) (end_pos rng)))"
  show ?thesis
  proof (cases ?r)
    case (Inl e)
    with a show ?thesis by (simp add: growRange_copy_def Let_def)
  next
    case (Inr maybe)
    show ?thesis
    proof (cases maybe)
      case None
      with Inr a show ?thesis by (simp add: growRange_copy_def Let_def)
    next
      case (Some expansionRange)
      with Inr a have "outRange = collapseWhitespace (getText editor) expansionRange"
        by (simp add: growRange_copy_def Let_def)
      with Inr Some expansionRange_copy_Some show ?thesis by blast
    qed
  qed
qed

text \<open>
  Claim C1. When one step of growth succeeds with \<open>outRange\<close>, in \<open>growRange\<close> of the
  current file and in the callback of \<open>TypescriptStrategy.grow\<close> of the earlier variant,
  the output starts at or before the input, ends at or after it, and is strictly
  larger on at least one side, for every text, tree and interval.
\<close>

theorem growRange_monotonic:
  "(growRange editor rng = Some outRange \<longrightarrow>
      start outRange \<le> start rng \<and> end_pos outRange \<ge> end_pos rng
      \<and> (start outRange < start rng \<or> end_pos outRange > end_pos rng))
   \<and> (growRange_copy editor rng = Inr (Some outRange) \<longrightarrow>
      start outRange \<le> start rng \<and> end_pos outRange \<ge> end_pos rng
      \<and> (start outRange < start rng \<or> end_pos outRange > end_pos rng))"
  using growRange_Some [THEN isExpansion_superset]
    growRange_copy_Some [THEN isExpansion_superset] by blast


theorem growRange_monotonic_witness:
  "growRange (divEditor []) \<lparr>start = 5, end_pos = 6\<rparr> = Some \<lparr>start = 0, end_pos = 7\<rparr>
   \<and> growRange_copy (divEditor []) \<lparr>start = 5, end_pos = 6\<rparr> = Inr (Some \<lparr>start = 0, end_pos = 7\<rparr>)
   \<and> start \<lparr>start = 0, end_pos = 7\<rparr> < start \<lparr>start = 5, end_pos = 6\<rparr>
   \<and> end_pos \<lparr>start = 0, end_pos = 7\<rparr> > end_pos \<lparr>start = 5, end_pos = 6\<rparr>"
proof -
  have a: "growRange (divEditor []) \<lparr>start = 5, end_pos = 6\<rparr> = Some \<lparr>start = 0, end_pos = 7\<rparr>"
    by code_simp
  have b: "growRange_copy (divEditor []) \<lparr>start = 5, end_pos = 6\<rparr>
             = Inr (Some \<lparr>start = 0, end_pos = 7\<rparr>)"
    by code_simp
  from growRange_monotonic [of "divEditor []" "\<lparr>start = 5, end_pos = 6\<rparr>"
      "\<lparr>start = 0, end_pos = 7\<rparr>"] a b
  show ?thesis by simp
qed


section \<open>Properties of the walk to a JSX element\<close>

declare growUntilJsxElement_loop.simps [simp del] growUntilJsxElement_counted.simps [simp del]

lemma counted_fst:
  "fst (growUntilJsxElement_counted editor g r c) = growUntilJsxElement_loop editor g r"
proof (induction editor g r c rule: growUntilJsxElement_counted.induct)
  case (1 editor g r c)
  show ?case
  proof (cases "rangeIsJsxElement editor g = Some True")
    case True
    then show ?thesis
      by (subst growUntilJsxElement_counted.simps, subst growUntilJsxElement_loop.simps) simp
  next
    case False
    show ?thesis
    proof (cases "growRange editor g")
      case None
      with False show ?thesis
        by (subst growUntilJsxElement_counted.simps, subst growUntilJsxElement_loop.simps) simp
    next
      case (Some g')
      show ?thesis
      proof (cases "r + 1 > rLimit")
        case True
        with False Some show ?thesis
          by (subst growUntilJsxElement_counted.simps, subst growUntilJsxElement_loop.simps)
             simp
      next
        case le: False
        from "1.IH" [OF False Some le] False Some le show ?thesis
          by (subst growUntilJsxElement_counted.simps, subst growUntilJsxElement_loop.simps)
             simp
      qed
    qed
  qed
qed

lemma counted_bound:
  "r \<le> rLimit \<Longrightarrow>
     snd (growUntilJsxElement_counted editor g r c) \<le> c + nat (rLimit - r) + 1
     \<and> (fst (growUntilJsxElement_counted editor g r c) \<noteq> None \<longrightarrow>
          snd (growUntilJsxElement_counted editor g r c) \<le> c + nat (rLimit - r))"
proof (induction editor g r c rule: growUntilJsxElement_counted.induct)
  case (1 editor g r c)
  show ?case
  proof (cases "rangeIsJsxElement editor g = Some True")
    case True
    then show ?thesis by (subst (1 2 3) growUntilJsxElement_counted.simps) simp
  next
    case False
    show ?thesis
    proof (cases "growRange editor g")
      case None
      with False show ?thesis by (subst (1 2 3) growUntilJsxElement_counted.simps) simp
    next
      case (Some g')
      show ?thesis
      proof (cases "r + 1 > rLimit")
        case True
        with False Some show ?thesis
          by (subst (1 2 3) growUntilJsxElement_counted.simps) simp
      next
        case le: False
        then have "r + 1 \<le> rLimit" by simp
        from "1.IH" [OF False Some le this] False Some le "1.prems" show ?thesis
          by (subst (1 2 3) growUntilJsxElement_counted.simps) (auto simp: nat_diff_distrib)
      qed
    qed
  qed
qed

lemma loop_Some:
  "growUntilJsxElement_loop editor g r = Some g' \<Longrightarrow> rangeIsJsxElement editor g' = Some True"
proof (induction editor g r rule: growUntilJsxElement_loop.induct)
  case (1 editor g r)
  show ?case
  proof (cases "rangeIsJsxElement editor g = Some True")
    case True
    with "1.prems" have "g' = g"
      by (subst (asm) growUntilJsxElement_loop.simps) simp
    with True show ?thesis by simp
  next
    case False
    show ?thesis
    proof (cases "growRange editor g")
      case None
      with False "1.prems" show ?thesis
        by (subst (asm) growUntilJsxElement_loop.simps) simp
    next
      case (Some g2)
      show ?thesis
      proof (cases "r + 1 > rLimit")
        case True
        with False Some "1.prems" show ?thesis
          by (subst (asm) growUntilJsxElement_loop.simps) simp
      next
        case le: False
        from "1.prems" False Some le
        have "growUntilJsxElement_loop editor g2 (r + 1) = Some g'"
          by (subst (asm) growUntilJsxElement_loop.simps) simp
        from "1.IH" [OF False Some le this] show ?thesis .
      qed
    qed
  qed
qed

text \<open>
  Claim C4, as amended. The counter \<open>r\<close> is compared with \<open>rLimit\<close> after the growth
  step: the walk calls \<open>growRange\<close> at most \<open>rLimit + 1 = 101\<close> times, a walk that
  returns an interval has called it at most \<open>rLimit = 100\<close> times, and when
  \<open>rangeIsJsxElement\<close> is true of no interval the walk returns \<open>undefined\<close>.
\<close>

theorem growUntilJsxElement_step_bound:
  "fst (growUntilJsxElement_counted editor rng 0 0) = growUntilJsxElement editor rng
   \<and> snd (growUntilJsxElement_counted editor rng 0 0) \<le> nat rLimit + 1
   \<and> (growUntilJsxElement editor rng \<noteq> None \<longrightarrow>
        snd (growUntilJsxElement_counted editor rng 0 0) \<le> nat rLimit)
   \<and> ((\<forall>g. rangeIsJsxElement editor g \<noteq> Some True) \<longrightarrow>
        growUntilJsxElement editor rng = None)"
proof -
  have a: "fst (growUntilJsxElement_counted editor rng 0 0) = growUntilJsxElement editor rng"
    by (simp add: counted_fst growUntilJsxElement_def)
  have "(0::int) \<le> rLimit" by (simp add: rLimit_def)
  from counted_bound [OF this, of editor rng 0]
  have b: "snd (growUntilJsxElement_counted editor rng 0 0) \<le> nat rLimit + 1"
    and c: "growUntilJsxElement editor rng \<noteq> None \<longrightarrow>
        snd (growUntilJsxElement_counted editor rng 0 0) \<le> nat rLimit"
    by (simp_all add: a)
  have d: "(\<forall>g. rangeIsJsxElement editor g \<noteq> Some True) \<longrightarrow>
        growUntilJsxElement editor rng = None"
  proof
    assume never: "\<forall>g. rangeIsJsxElement editor g \<noteq> Some True"
    show "growUntilJsxElement editor rng = None"
    proof (cases "growUntilJsxElement editor rng")
      case None
      then show ?thesis .
    next
      case (Some g')
      then have "rangeIsJsxElement editor g' = Some True"
        unfolding growUntilJsxElement_def by (rule loop_Some)
      with never show ?thesis by simp
    qed
  qed
  from a b c d show ?thesis by blast
qed

text \<open>
  Claim C10. The walk tests \<open>rangeIsJsxElement\<close> before any growth step: on an
  interval for which it is true the walk returns that interval unchanged, without a
  call of \<open>growRange\<close>.
\<close>

theorem growUntilJsxElement_tests_first:
  "rangeIsJsxElement editor rng = Some True \<Longrightarrow>
     growUntilJsxElement editor rng = Some rng
     \<and> growUntilJsxElement_counted editor rng 0 0 = (Some rng, 0)"
  unfolding growUntilJsxElement_def
  by (subst growUntilJsxElement_loop.simps, subst growUntilJsxElement_counted.simps) simp

subsection \<open>The chain of nested nodes\<close>

lemma no_whitespace_collapse:
  assumes "\<forall>c \<in> set source. \<not> isWhiteSpaceUnit c"
  shows "collapseWhitespace source rng = rng"
proof -
  have "\<not> WHITESPACE_test (charAt source i)" for i
    using assms by (auto simp: WHITESPACE_test_def charAt_def list_ex_iff)
  then have "leftScan source i 0 = 0" "rightScan source j 0 = 0" for i j
    by (simp_all add: leftScan.simps rightScan.simps)
  then show ?thesis by (simp add: collapseWhitespace_def)
qed

lemma resolvePath_nested:
  "j \<le> n \<Longrightarrow> resolvePath 0 (int j) (nested n) = map nested (rev [j..<Suc n])"
proof (induction n)
  case 0
  then show ?case by simp
next
  case (Suc n)
  show ?case
  proof (cases "j = Suc n")
    case True
    have "resolvePath 0 (1 + int n) (nested n) = []"
      by (cases n) simp_all
    then show ?thesis using True by simp
  next
    case False
    then have "j \<le> n" using Suc.prems by simp
    from Suc.IH [OF this] this show ?thesis by simp
  qed
qed

lemma nodeToRange_nested: "nodeToRange (nested k) = \<lparr>start = 0, end_pos = int k\<rparr>"
  by (cases k) (simp_all add: nodeToRange_def)

lemma kind_nested: "kind (nested k) = OtherKind 80"
  by (cases k) simp_all

lemma nestedEditor_collapse: "collapseWhitespace (getText nestedEditor) rng = rng"
  by (rule no_whitespace_collapse) (simp add: nestedEditor_def isWhiteSpaceUnit_def)

lemma find_nested:
  "j < n \<Longrightarrow>
     find (\<lambda>node. isExpansion (nodeToRange node) \<lparr>start = 0, end_pos = int j\<rparr>)
       (map nested [j..<Suc n]) = Some (nested (Suc j))"
  by (simp add: upt_conv_Cons nodeToRange_nested isExpansion_def del: upt_Suc nested.simps)

lemma rangeToNode_nested:
  assumes "j < 101"
  shows "rangeToNode nestedEditor \<lparr>start = 0, end_pos = int j\<rparr> = Some (nested (Suc j))"
proof -
  have "rev (getPathOfNodesInRange (nested 101) 0 (int j)) = rev (map nested (rev [j..<Suc 101]))"
    using assms resolvePath_nested [of j 101]
    by (simp only: getPathOfNodesInRange_def pathToPositionInternal_resolvePath append_Nil
        less_imp_le_nat)
  also have "\<dots> = map nested [j..<Suc 101]"
    by (simp only: rev_map rev_rev_ident)
  finally have path: "rev (getPathOfNodesInRange (sourceFile nestedEditor)
      (start \<lparr>start = 0, end_pos = int j\<rparr>) (end_pos \<lparr>start = 0, end_pos = int j\<rparr>))
      = map nested [j..<Suc 101]"
    by (simp add: nestedEditor_def del: nested.simps upt_Suc)
  show ?thesis
    unfolding rangeToNode_def Let_def path nestedEditor_collapse
    by (rule find_nested [OF assms])
qed

lemma growRange_nested:
  "j < 101 \<Longrightarrow> growRange nestedEditor \<lparr>start = 0, end_pos = int j\<rparr>
     = Some \<lparr>start = 0, end_pos = int j + 1\<rparr>"
  unfolding growRange_def Let_def nestedEditor_collapse
  by (simp only: rangeToNode_nested option.case nodeToRange_nested) simp

lemma rangeIsJsxElement_nested:
  "j < 101 \<Longrightarrow> rangeIsJsxElement nestedEditor \<lparr>start = 0, end_pos = int j\<rparr> = Some False"
  unfolding rangeIsJsxElement_def
  by (simp only: rangeToNode_nested option.case kind_nested) simp

lemma counted_nested:
  "j \<le> 100 \<Longrightarrow>
     growUntilJsxElement_counted nestedEditor \<lparr>start = 0, end_pos = int j\<rparr> (int j) j
       = (None, 101)"
proof (induction "100 - j" arbitrary: j)
  case 0
  then have j: "j = 100" by simp
  then have lt: "j < 101" and over: "int j + 1 > rLimit" and c: "j + 1 = 101"
    by (simp_all add: rLimit_def)
  show ?case
    by (subst growUntilJsxElement_counted.simps)
       (simp only: rangeIsJsxElement_nested [OF lt] growRange_nested [OF lt] over c
          option.case if_True if_False option.inject simp_thms)
next
  case (Suc m)
  then have lt: "j < 101" and le: "\<not> int j + 1 > rLimit" and m: "m = 100 - Suc j"
    and j1: "Suc j \<le> 100"
    by (simp_all add: rLimit_def)
  from Suc.hyps(1) [OF m j1]
  have "growUntilJsxElement_counted nestedEditor \<lparr>start = 0, end_pos = int j + 1\<rparr>
          (int j + 1) (j + 1) = (None, 101)"
    by (simp add: add.commute)
  then show ?case
    by (subst growUntilJsxElement_counted.simps)
       (simp only: rangeIsJsxElement_nested [OF lt] growRange_nested [OF lt] le
          option.case if_True if_False option.inject simp_thms)
qed

text \<open>
  Claim C4 as stated fails: on the chain of nested nodes the walk from the cursor at 0
  calls \<open>growRange\<close> 101 times, each call succeeding, before it gives up.
\<close>

theorem growUntilJsxElement_101_steps:
  "growUntilJsxElement_counted nestedEditor \<lparr>start = 0, end_pos = 0\<rparr> 0 0 = (None, 101)
   \<and> \<not> snd (growUntilJsxElement_counted nestedEditor \<lparr>start = 0, end_pos = 0\<rparr> 0 0) \<le> 100"
  using counted_nested [of 0] by simp


lemma resolvePath_nested_kind:
  "node \<in> set (resolvePath st en (nested n)) \<Longrightarrow> kind node = Identifier"
  by (induction n) (auto split: if_splits)

lemma rangeIsJsxElement_nested_never:
  "rangeIsJsxElement nestedEditor g \<noteq> Some True"
proof (cases "rangeToNode nestedEditor g")
  case None
  then show ?thesis by (simp add: rangeIsJsxElement_def)
next
  case (Some node)
  from rangeToNode_Some [OF this]
  have "node \<in> set (resolvePath (start g) (end_pos g) (nested 101))"
    by (simp add: getPathOfNodesInRange_def pathToPositionInternal_resolvePath nestedEditor_def
        del: nested.simps)
  then have "kind node = Identifier" by (rule resolvePath_nested_kind)
  with Some show ?thesis by (simp add: rangeIsJsxElement_def)
qed

theorem growUntilJsxElement_step_bound_witness:
  "growUntilJsxElement (divEditor []) \<lparr>start = 13, end_pos = 13\<rparr>
     = Some \<lparr>start = 12, end_pos = 15\<rparr>
   \<and> growUntilJsxElement_counted (divEditor []) \<lparr>start = 13, end_pos = 13\<rparr> 0 0
     = (Some \<lparr>start = 12, end_pos = 15\<rparr>, 1)
   \<and> (1::nat) \<le> nat rLimit
   \<and> growUntilJsxElement nestedEditor \<lparr>start = 0, end_pos = 0\<rparr> = None
   \<and> snd (growUntilJsxElement_counted nestedEditor \<lparr>start = 0, end_pos = 0\<rparr> 0 0)
     = nat rLimit + 1"
proof -
  have p1: "rangeIsJsxElement (divEditor []) \<lparr>start = 13, end_pos = 13\<rparr> = Some False"
    by code_simp
  have g1: "growRange (divEditor []) \<lparr>start = 13, end_pos = 13\<rparr>
              = Some \<lparr>start = 12, end_pos = 15\<rparr>"
    by code_simp
  have p2: "rangeIsJsxElement (divEditor []) \<lparr>start = 12, end_pos = 15\<rparr> = Some True"
    by code_simp
  have l: "\<not> (0::int) + 1 > rLimit" by (simp add: rLimit_def)
  have c2: "growUntilJsxElement_counted (divEditor []) \<lparr>start = 12, end_pos = 15\<rparr> (0 + 1) (0 + 1)
         = (Some \<lparr>start = 12, end_pos = 15\<rparr>, 0 + 1)"
    by (subst growUntilJsxElement_counted.simps) (simp only: p2 if_True simp_thms)
  have c1: "growUntilJsxElement_counted (divEditor []) \<lparr>start = 13, end_pos = 13\<rparr> 0 0
         = (Some \<lparr>start = 12, end_pos = 15\<rparr>, 1)"
    by (subst growUntilJsxElement_counted.simps)
       (simp only: p1 g1 l c2 option.case if_False option.inject simp_thms, simp)
  have c3: "growUntilJsxElement_counted nestedEditor \<lparr>start = 0, end_pos = 0\<rparr> 0 0 = (None, 101)"
    using counted_nested [of 0] by simp
  from growUntilJsxElement_step_bound [of "divEditor []" "\<lparr>start = 13, end_pos = 13\<rparr>"]
    growUntilJsxElement_step_bound [of nestedEditor "\<lparr>start = 0, end_pos = 0\<rparr>"]
    rangeIsJsxElement_nested_never c1 c3
  show ?thesis by (simp add: rLimit_def)
qed

theorem growUntilJsxElement_tests_first_witness:
  "rangeIsJsxElement (divEditor []) \<lparr>start = 0, end_pos = 7\<rparr> = Some True
   \<and> growUntilJsxElement (divEditor []) \<lparr>start = 0, end_pos = 7\<rparr> = Some \<lparr>start = 0, end_pos = 7\<rparr>
   \<and> growUntilJsxElement_counted (divEditor []) \<lparr>start = 0, end_pos = 7\<rparr> 0 0
       = (Some \<lparr>start = 0, end_pos = 7\<rparr>, 0)"
proof -
  have p: "rangeIsJsxElement (divEditor []) \<lparr>start = 0, end_pos = 7\<rparr> = Some True"
    by code_simp
  from growUntilJsxElement_tests_first [OF p] p show ?thesis by simp
qed


section \<open>Properties of nodeToRange and of the attribute names\<close>

text \<open>
  Claim C6, as amended. \<open>nodeToRange\<close> of the current file returns
  \<open>{fullStart, end}\<close> unadjusted for every kind. In the earlier variant it returns
  \<open>{fullStart + ds, end + de}\<close>, the offsets a function of the kind and of the full
  width \<open>w\<close> of the literal of a template span: \<open>(2, -2)\<close> for a head, \<open>(1, -1)\<close> for a
  tail, \<open>(1, -2)\<close> for a middle, \<open>(-2, -w + 1)\<close> for a span, and \<open>(0, 0)\<close> for every other
  kind (a span without its literal throws). So a head, a tail and a middle are moved
  inward at both ends, and a span starts two units before its full start.
\<close>

theorem nodeToRange_adjustments:
  "nodeToRange node = \<lparr>start = getFullStart node, end_pos = getEnd node\<rparr>
   \<and> nodeToRange_copy node =
       (if kind node = TemplateSpan \<and> literal node = None then Inl TypeError
        else Inr (Some
          \<lparr>start = getFullStart node
                     + fst (boundaryAdjustment (kind node) (literalFullWidth node)),
           end_pos = getEnd node
                     + snd (boundaryAdjustment (kind node) (literalFullWidth node))\<rparr>))
   \<and> (kind node \<in> {TemplateHead, TemplateTail, TemplateMiddle} \<longrightarrow>
        (\<exists>rng. nodeToRange_copy node = Inr (Some rng)
           \<and> start rng > getFullStart node \<and> end_pos rng < getEnd node))
   \<and> (kind node = TemplateSpan \<and> literal node \<noteq> None \<longrightarrow>
        (\<exists>rng. nodeToRange_copy node = Inr (Some rng)
           \<and> start rng = getFullStart node - 2 \<and> start rng < getFullStart node
           \<and> end_pos rng = getEnd node - literalFullWidth node + 1))"
proof -
  have a: "nodeToRange node = \<lparr>start = getFullStart node, end_pos = getEnd node\<rparr>"
    by (simp add: nodeToRange_def)
  have b: "nodeToRange_copy node =
       (if kind node = TemplateSpan \<and> literal node = None then Inl TypeError
        else Inr (Some
          \<lparr>start = getFullStart node
                     + fst (boundaryAdjustment (kind node) (literalFullWidth node)),
           end_pos = getEnd node
                     + snd (boundaryAdjustment (kind node) (literalFullWidth node))\<rparr>))"
    by (cases "kind node"; cases "literal node")
       (simp_all add: nodeToRange_copy_def isTemplateSpan_def literalFullWidth_def)
  have c: "kind node \<in> {TemplateHead, TemplateTail, TemplateMiddle} \<longrightarrow>
        (\<exists>rng. nodeToRange_copy node = Inr (Some rng)
           \<and> start rng > getFullStart node \<and> end_pos rng < getEnd node)"
    unfolding b by auto
  have d: "kind node = TemplateSpan \<and> literal node \<noteq> None \<longrightarrow>
        (\<exists>rng. nodeToRange_copy node = Inr (Some rng)
           \<and> start rng = getFullStart node - 2 \<and> start rng < getFullStart node
           \<and> end_pos rng = getEnd node - literalFullWidth node + 1)"
    unfolding b by auto
  from a b c d show ?thesis by blast
qed

text \<open>
  The theorem at a template middle spanning \<open>[6, 10)\<close>, at a span \<open>[5, 9)\<close> whose
  literal is the tail \<open>[6, 9)\<close>, and at an identifier.
\<close>

theorem nodeToRange_adjustments_witness:
  "nodeToRange (leaf TemplateMiddle 6 10) = \<lparr>start = 6, end_pos = 10\<rparr>
   \<and> nodeToRange_copy (leaf TemplateMiddle 6 10) = Inr (Some \<lparr>start = 7, end_pos = 8\<rparr>)
   \<and> nodeToRange_copy (Node TemplateSpan 5 9 [] [] (Some (leaf TemplateTail 6 9)))
       = Inr (Some \<lparr>start = 3, end_pos = 7\<rparr>)
   \<and> nodeToRange_copy (leaf Identifier 5 6) = Inr (Some \<lparr>start = 5, end_pos = 6\<rparr>)"
proof -
  let ?span = "Node TemplateSpan 5 9 [] [] (Some (leaf TemplateTail 6 9))"
  have m: "kind (leaf TemplateMiddle 6 10) \<in> {TemplateHead, TemplateTail, TemplateMiddle}"
    by (simp add: leaf_def)
  have s: "kind ?span = TemplateSpan \<and> literal ?span \<noteq> None"
    by simp
  have w: "literalFullWidth ?span = 3"
    by (simp add: literalFullWidth_def getFullWidth_def leaf_def)
  from nodeToRange_adjustments [of "leaf TemplateMiddle 6 10"] m
  have 1: "nodeToRange (leaf TemplateMiddle 6 10) = \<lparr>start = 6, end_pos = 10\<rparr>"
    and 2: "nodeToRange_copy (leaf TemplateMiddle 6 10) = Inr (Some \<lparr>start = 7, end_pos = 8\<rparr>)"
    by (simp_all add: leaf_def literalFullWidth_def)
  from nodeToRange_adjustments [of ?span] s w
  have 3: "nodeToRange_copy ?span = Inr (Some \<lparr>start = 3, end_pos = 7\<rparr>)"
    by simp
  from nodeToRange_adjustments [of "leaf Identifier 5 6"]
  have 4: "nodeToRange_copy (leaf Identifier 5 6) = Inr (Some \<lparr>start = 5, end_pos = 6\<rparr>)"
    by (simp add: leaf_def literalFullWidth_def)
  from 1 2 3 4 show ?thesis by blast
qed

text \<open>
  Claim C6 as stated fails. For a template with head \<open>[0, 5)\<close>, span \<open>[5, 9)\<close> and tail
  \<open>[6, 9)\<close>, \<open>nodeToRange\<close> of the current file returns the head and the tail
  unadjusted, and the earlier variant moves the start of the span from 5 back to 3,
  before its full start, and its end to 7: nothing is trimmed from the start of the
  span.
\<close>

theorem nodeToRange_no_trimming:
  "nodeToRange (leaf TemplateHead 0 5) = \<lparr>start = 0, end_pos = 5\<rparr>
   \<and> nodeToRange (leaf TemplateTail 6 9) = \<lparr>start = 6, end_pos = 9\<rparr>
   \<and> nodeToRange_copy (Node TemplateSpan 5 9 [leaf Identifier 5 6, leaf TemplateTail 6 9]
        [leaf Identifier 5 6, leaf TemplateTail 6 9] (Some (leaf TemplateTail 6 9)))
       = Inr (Some \<lparr>start = 3, end_pos = 7\<rparr>)"
  by code_simp


text \<open>
  Claim C5, as amended. The extraction over the children of the attribute list raises
  a \<open>TypeError\<close> when some child of kind attribute has no first child; otherwise it
  raises nothing, skips the children of other kinds and appends, in order, the
  collapsed interval of the first child of every child of kind attribute.
\<close>

theorem pushAttributeNames_result:
  "pushAttributeNames editor nodes paramRanges =
     (if list_ex (\<lambda>node. kind node = JsxAttribute \<and> getChildren node = []) nodes
      then Inl TypeError
      else Inr (paramRanges @
                map (\<lambda>node. collapseWhitespace (getText editor)
                               (nodeToRange (hd (getChildren node))))
                  (filter (\<lambda>node. kind node = JsxAttribute) nodes)))"
proof (induction nodes arbitrary: paramRanges)
  case Nil
  show ?case by simp
next
  case (Cons node rest)
  show ?case
  proof (cases "kind node = JsxAttribute")
    case False
    then show ?thesis by (simp add: Cons.IH)
  next
    case True
    show ?thesis
    proof (cases "getChildren node")
      case Nil
      with True show ?thesis by simp
    next
      case (Cons name others)
      with True show ?thesis by (simp add: Cons.IH)
    qed
  qed
qed

text \<open>
  The theorem at two attributes with a node of another kind between them.
\<close>

theorem pushAttributeNames_result_witness:
  "pushAttributeNames (fooEditor [leaf Identifier 8 12])
     [parent JsxAttribute 4 8 [leaf Identifier 4 8], leaf Identifier 1 4,
      parent JsxAttribute 8 12 [leaf Identifier 8 12]] []
   = Inr [\<lparr>start = 5, end_pos = 8\<rparr>, \<lparr>start = 9, end_pos = 12\<rparr>]"
proof -
  have "Inr ([] @ map (\<lambda>node. collapseWhitespace (getText (fooEditor [leaf Identifier 8 12]))
                               (nodeToRange (hd (getChildren node))))
                  (filter (\<lambda>node. kind node = JsxAttribute)
                     [parent JsxAttribute 4 8 [leaf Identifier 4 8], leaf Identifier 1 4,
                      parent JsxAttribute 8 12 [leaf Identifier 8 12]]))
        = (Inr [\<lparr>start = 5, end_pos = 8\<rparr>, \<lparr>start = 9, end_pos = 12\<rparr>] :: error + Range list)"
    by code_simp
  moreover have "\<not> list_ex (\<lambda>node. kind node = JsxAttribute \<and> getChildren node = [])
       [parent JsxAttribute 4 8 [leaf Identifier 4 8], leaf Identifier 1 4,
        parent JsxAttribute 8 12 [leaf Identifier 8 12]]"
    by code_simp
  ultimately show ?thesis
    using pushAttributeNames_result [of "fooEditor [leaf Identifier 8 12]"
        "[parent JsxAttribute 4 8 [leaf Identifier 4 8], leaf Identifier 1 4,
          parent JsxAttribute 8 12 [leaf Identifier 8 12]]" "[]"]
    by (simp only: if_False)
qed

text \<open>
  Claim C5 as stated fails: with \<open>bar\<close> selected in \<^verbatim>\<open><Foo bar baz />\<close>, \<open>findParams\<close>
  returns the names of both attributes; when the attribute \<open>baz\<close> has no children it
  throws, the interval of \<open>bar\<close> is lost, and \<open>grow\<close> throws with it.
\<close>

theorem findParams_throws:
  "findParams TypescriptStrategy (fooEditor [leaf Identifier 8 12])
     = Inr [\<lparr>start = 5, end_pos = 8\<rparr>, \<lparr>start = 9, end_pos = 12\<rparr>]
   \<and> findParams TypescriptStrategy (fooEditor []) = Inl TypeError
   \<and> grow (fooSession []) = Inl TypeError"
  by code_simp


section \<open>Properties of the history\<close>

lemma grownSelections_Some:
  assumes "grownSelections this = Some sels"
  obtains editor where "activeTextEditor this = Some editor" and "sels \<noteq> []"
    and "selections editor \<noteq> []"
    and "grow this = Inr (updateSelections sels
                            (updateSelectionsHistory (selections editor) this))"
proof -
  from assms obtain editor where e: "activeTextEditor this = Some editor"
    by (cases "activeTextEditor this") (simp_all add: grownSelections_def)
  from assms e obtain strategy where s: "strategies (languageId editor) = Some strategy"
    by (cases "strategies (languageId editor)") (simp_all add: grownSelections_def)
  from assms e s obtain paramRanges where p: "findParams strategy editor = Inr paramRanges"
    by (cases "findParams strategy editor") (simp_all add: grownSelections_def)
  from assms e s p have ne: "paramRanges \<noteq> []"
    and sels: "sels = map (\<lambda>rng. \<lparr>anchor = start rng, active = end_pos rng\<rparr>) paramRanges"
    by (auto simp: grownSelections_def split: if_splits)
  from p have ts: "strategy = TypescriptStrategy"
    by (cases strategy) (simp_all add: findParams_def)
  have "selections editor \<noteq> []"
  proof
    assume "selections editor = []"
    then have "findParams strategy editor = Inr []"
      by (simp add: ts findParams_def TypescriptStrategy_grow_def startRanges_def)
    with p ne show False by simp
  qed
  moreover have "sels \<noteq> []" using ne sels by simp
  moreover have "grow this = Inr (updateSelections sels
                            (updateSelectionsHistory (selections editor) this))"
    using e s p ne sels by (simp add: grow_def Let_def)
  ultimately show thesis using e that by blast
qed

lemma updateSelectionsHistory_push:
  assumes "selectionsHistory this = [] \<or> \<not> areSelectionsEqual (last (selectionsHistory this)) sels"
  shows "updateSelectionsHistory sels this
           = this\<lparr>selectionsHistory := selectionsHistory this @ [sels]\<rparr>"
proof (cases "selectionsHistory this = []")
  case True
  then show ?thesis by (simp add: updateSelectionsHistory_def)
next
  case False
  with assms have "\<not> areSelectionsEqual (last (selectionsHistory this)) sels" by simp
  with False show ?thesis
    by (simp add: updateSelectionsHistory_def Let_def last_conv_nth)
qed

text \<open>One recorded grow and its notification, undone by one shrink and its notification.\<close>

lemma grow_then_shrink:
  assumes g: "grownSelections this = Some sels"
    and d: "\<not> areSelectionsEqual (currentSelections this) sels"
    and t: "topDiffers this"
    and f: "\<not> didUpdateSelections this"
  defines "this' \<equiv> windowSelectionListener (afterGrow this)"
  shows "windowSelectionListener (shrink this') = this"
    and "topDiffers this'" and "\<not> didUpdateSelections this'"
    and "currentSelections this' = sels"
    and "selectionsHistory this' = selectionsHistory this @ [currentSelections this]"
proof -
  from g obtain editor where e: "activeTextEditor this = Some editor" and ne: "sels \<noteq> []"
    and cur: "selections editor \<noteq> []"
    and gr: "grow this = Inr (updateSelections sels
                            (updateSelectionsHistory (selections editor) this))"
    by (rule grownSelections_Some)
  have c: "currentSelections this = selections editor"
    using e by (simp add: currentSelections_def)
  have push: "updateSelectionsHistory (selections editor) this
           = this\<lparr>selectionsHistory := selectionsHistory this @ [selections editor]\<rparr>"
    using t c by (intro updateSelectionsHistory_push) (simp add: topDiffers_def)
  have this': "this' = this\<lparr>selectionsHistory := selectionsHistory this @ [selections editor],
                           activeTextEditor := Some (editor\<lparr>selections := sels\<rparr>)\<rparr>"
    using e ne f
    by (simp add: this'_def afterGrow_def gr push updateSelections_def
        windowSelectionListener_def)
  show "windowSelectionListener (shrink this') = this"
    using e cur f
    by (simp add: this' shrink_def updateSelections_def windowSelectionListener_def)
  show "topDiffers this'"
    using d c by (simp add: this' topDiffers_def currentSelections_def)
  show "\<not> didUpdateSelections this'"
    using f by (simp add: this')
  show "currentSelections this' = sels"
    by (simp add: this' currentSelections_def)
  show "selectionsHistory this' = selectionsHistory this @ [currentSelections this]"
    by (simp add: this' c)
qed

lemma shrinks_Suc:
  "shrinks (Suc n) this = windowSelectionListener (shrink (shrinks n this))"
  by (induction n arbitrary: this) simp_all

lemma grows_Suc_Some:
  assumes "grows (Suc n) this = Some this'"
  obtains sels where "grownSelections this = Some sels"
    and "\<not> areSelectionsEqual (currentSelections this) sels"
    and "grows n (windowSelectionListener (afterGrow this)) = Some this'"
  using assms
  by (cases "grownSelections this") (auto split: if_splits)

text \<open>
  Claim C3, as amended. From an engine with no change of its own pending and a history
  that is empty or whose top differs from the current selections, \<open>n\<close> successful grows
  that each compute selections different (by \<open>areSelectionsEqual\<close>) from the current
  ones, followed by \<open>k \<le> n\<close> shrinks (every command followed by the editor's
  notification), lead to the very state reached after the first \<open>n - k\<close> grows: each
  shrink reapplies the selections that were current before the corresponding grow, and
  \<open>n\<close> shrinks restore the original selections (anchors, actives and order) and history.
\<close>

theorem grows_then_shrinks:
  assumes "grows n this = Some this'"
    and "topDiffers this" and "\<not> didUpdateSelections this" and "k \<le> n"
  shows "grows (n - k) this = Some (shrinks k this')"
  using assms
proof (induction n arbitrary: this k)
  case 0
  then show ?case by simp
next
  case (Suc n)
  from Suc.prems(1) obtain sels where g: "grownSelections this = Some sels"
    and d: "\<not> areSelectionsEqual (currentSelections this) sels"
    and rest: "grows n (windowSelectionListener (afterGrow this)) = Some this'"
    by (rule grows_Suc_Some)
  let ?next = "windowSelectionListener (afterGrow this)"
  note step = grow_then_shrink [OF g d Suc.prems(2,3)]
  show ?case
  proof (cases "k = Suc n")
    case True
    from Suc.IH [OF rest step(2,3), of n]
    have "shrinks n this' = ?next" by simp
    then have "shrinks (Suc n) this' = this"
      by (simp only: shrinks_Suc step(1))
    with True show ?thesis by simp
  next
    case False
    with Suc.prems(4) have k: "k \<le> n" by simp
    then have "Suc n - k = Suc (n - k)" by simp
    moreover have "grows (Suc (n - k)) this = grows (n - k) ?next"
      using g d by simp
    ultimately show ?thesis using Suc.IH [OF rest step(2,3) k] by simp
  qed
qed


text \<open>
  The theorem in the document \<^verbatim>\<open><div a><Foo bar /></div>\<close>, from the cursor inside
  \<open>bar\<close>: the first grow selects \<open>bar\<close>, the second \<open>a\<close>.
\<close>

theorem grows_then_shrinks_witness:
  "grows 2 cursorSession
     = Some (cursorSession
         \<lparr>selectionsHistory := [[\<lparr>anchor = 13, active = 13\<rparr>], [\<lparr>anchor = 12, active = 15\<rparr>]],
          activeTextEditor := Some (divEditor [\<lparr>anchor = 5, active = 6\<rparr>])\<rparr>)
   \<and> shrinks 2 (cursorSession
         \<lparr>selectionsHistory := [[\<lparr>anchor = 13, active = 13\<rparr>], [\<lparr>anchor = 12, active = 15\<rparr>]],
          activeTextEditor := Some (divEditor [\<lparr>anchor = 5, active = 6\<rparr>])\<rparr>) = cursorSession
   \<and> grows 1 cursorSession
     = Some (shrinks 1 (cursorSession
         \<lparr>selectionsHistory := [[\<lparr>anchor = 13, active = 13\<rparr>], [\<lparr>anchor = 12, active = 15\<rparr>]],
          activeTextEditor := Some (divEditor [\<lparr>anchor = 5, active = 6\<rparr>])\<rparr>))"
proof -
  have g: "grows 2 cursorSession
     = Some (cursorSession
         \<lparr>selectionsHistory := [[\<lparr>anchor = 13, active = 13\<rparr>], [\<lparr>anchor = 12, active = 15\<rparr>]],
          activeTextEditor := Some (divEditor [\<lparr>anchor = 5, active = 6\<rparr>])\<rparr>)"
    by code_simp
  have t: "topDiffers cursorSession"
    by (simp add: topDiffers_def cursorSession_def)
  have f: "\<not> didUpdateSelections cursorSession"
    by (simp add: cursorSession_def)
  from grows_then_shrinks [OF g t f, of 2] grows_then_shrinks [OF g t f, of 1] g
  show ?thesis by simp
qed

text \<open>
  Claim C3 as stated fails. With \<open>a\<close> selected in the same document, \<open>grow\<close> computes
  and applies the selection of \<open>a\<close> again: two grows succeed, the second finds the top
  of the history equal to the current selections and records nothing, and of the two
  shrinks that follow the second finds the history empty and asks the editor for its
  own shrink instead of reapplying a selection.
\<close>

theorem second_shrink_defers:
  "grownSelections divSession = Some [\<lparr>anchor = 5, active = 6\<rparr>]
   \<and> grownSelections (windowSelectionListener (afterGrow divSession))
       = Some [\<lparr>anchor = 5, active = 6\<rparr>]
   \<and> selectionsHistory
        (windowSelectionListener (afterGrow (windowSelectionListener (afterGrow divSession))))
       = [[\<lparr>anchor = 5, active = 6\<rparr>]]
   \<and> executedCommands
        (shrinks 2
           (windowSelectionListener (afterGrow (windowSelectionListener (afterGrow divSession)))))
       = [''editor.action.smartSelect.shrink'']"
  by code_simp


subsection \<open>Changes reported by the editor\<close>

lemma updateSelections_flag:
  "didUpdateSelections (updateSelections sels this)
     = (didUpdateSelections this \<or> (activeTextEditor this \<noteq> None \<and> sels \<noteq> []))"
  by (cases "activeTextEditor this") (simp_all add: updateSelections_def)

lemma updateSelectionsHistory_fields:
  "didUpdateSelections (updateSelectionsHistory sels this) = didUpdateSelections this"
  "activeTextEditor (updateSelectionsHistory sels this) = activeTextEditor this"
  by (simp_all add: updateSelectionsHistory_def Let_def split: option.split)

lemma afterGrow_flag:
  "didUpdateSelections (afterGrow this)
     = (didUpdateSelections this \<or> grownSelections this \<noteq> None)"
proof (cases "activeTextEditor this")
  case None
  then show ?thesis by (simp add: afterGrow_def grow_def grownSelections_def)
next
  case (Some editor)
  note e = this
  show ?thesis
  proof (cases "strategies (languageId editor)")
    case None
    with e show ?thesis
      by (simp add: afterGrow_def grow_def grownSelections_def executeCommand_def)
  next
    case (Some strategy)
    note s = this
    show ?thesis
    proof (cases "findParams strategy editor")
      case (Inl err)
      with e s show ?thesis by (simp add: afterGrow_def grow_def grownSelections_def)
    next
      case (Inr paramRanges)
      with e s show ?thesis
        by (cases "paramRanges = []")
           (simp_all add: afterGrow_def grow_def grownSelections_def Let_def
              updateSelections_flag updateSelectionsHistory_fields)
    qed
  qed
qed

lemma shrink_flag:
  "didUpdateSelections (shrink this) = (didUpdateSelections this \<or> applies Shrink this)"
  by (cases "selectionsHistory this = []")
     (auto simp: shrink_def executeCommand_def updateSelections_flag)

lemma step_flag:
  "didUpdateSelections (step ev this)
     = (case ev of SelectionChanged sels \<Rightarrow> False
        | _ \<Rightarrow> didUpdateSelections this \<or> applies ev this)"
proof (cases ev)
  case Grow
  then show ?thesis by (simp add: afterGrow_flag)
next
  case Shrink
  then show ?thesis by (simp only: step.simps shrink_flag event.case)
next
  case (SelectionChanged sels)
  then show ?thesis by (simp add: windowSelectionListener_def)
qed

text \<open>The flag says whether the engine applied selections since the last reported change.\<close>

lemma flag_run:
  "didUpdateSelections (run evs this)
     = appliedSinceLastChange (didUpdateSelections this) evs this"
proof (induction evs arbitrary: this)
  case Nil
  show ?case by simp
next
  case (Cons ev evs)
  show ?case by (simp only: run.simps appliedSinceLastChange.simps Cons.IH step_flag)
qed

lemma shrink_empty:
  "selectionsHistory this = [] \<Longrightarrow>
     shrink this = executeCommand ''editor.action.smartSelect.shrink'' this"
  by (simp add: shrink_def)

lemma step_keeps_empty:
  "selectionsHistory this = [] \<Longrightarrow> ev \<noteq> Grow \<Longrightarrow> selectionsHistory (step ev this) = []"
  by (cases ev) (simp_all add: shrink_def executeCommand_def windowSelectionListener_def)

lemma run_keeps_empty:
  "selectionsHistory this = [] \<Longrightarrow> Grow \<notin> set evs \<Longrightarrow> selectionsHistory (run evs this) = []"
proof (induction evs arbitrary: this)
  case Nil
  then show ?case by simp
next
  case (Cons ev evs)
  from Cons.prems have "ev \<noteq> Grow" and "Grow \<notin> set evs" by auto
  with Cons.prems(1) Cons.IH step_keeps_empty show ?case by simp
qed

text \<open>
  Claim C8. After any run of commands and reported changes, from any state of the
  engine: when the engine has not applied selections since the last reported change
  (nor had, when the run began), the next reported change empties the history, and
  every shrink issued after it and before a further grow, whatever changes are
  reported in between, executes the editor's own shrink command; when the engine has
  applied selections since the last reported change, the next reported change leaves
  the history as it is and clears the flag.
\<close>

theorem history_invalidation:
  "(\<not> appliedSinceLastChange (didUpdateSelections this) evs this \<longrightarrow>
      selectionsHistory (step (SelectionChanged sels) (run evs this)) = []
      \<and> (\<forall>later. Grow \<notin> set later \<longrightarrow>
            step Shrink (run later (step (SelectionChanged sels) (run evs this)))
              = executeCommand ''editor.action.smartSelect.shrink''
                  (run later (step (SelectionChanged sels) (run evs this)))))
   \<and> (appliedSinceLastChange (didUpdateSelections this) evs this \<longrightarrow>
      selectionsHistory (step (SelectionChanged sels) (run evs this))
        = selectionsHistory (run evs this)
      \<and> \<not> didUpdateSelections (step (SelectionChanged sels) (run evs this)))"
proof (cases "appliedSinceLastChange (didUpdateSelections this) evs this")
  case True
  then have "didUpdateSelections (run evs this)" by (simp add: flag_run)
  then have "selectionsHistory (step (SelectionChanged sels) (run evs this))
        = selectionsHistory (run evs this)
      \<and> \<not> didUpdateSelections (step (SelectionChanged sels) (run evs this))"
    by (simp add: windowSelectionListener_def)
  with True show ?thesis by simp
next
  case False
  then have "\<not> didUpdateSelections (run evs this)" by (simp add: flag_run)
  then have e: "selectionsHistory (step (SelectionChanged sels) (run evs this)) = []"
    by (simp add: windowSelectionListener_def)
  have l: "\<forall>later. Grow \<notin> set later \<longrightarrow>
            step Shrink (run later (step (SelectionChanged sels) (run evs this)))
              = executeCommand ''editor.action.smartSelect.shrink''
                  (run later (step (SelectionChanged sels) (run evs this)))"
  proof (intro allI impI)
    fix later :: "event list"
    assume "Grow \<notin> set later"
    from run_keeps_empty [OF e this]
    show "step Shrink (run later (step (SelectionChanged sels) (run evs this)))
              = executeCommand ''editor.action.smartSelect.shrink''
                  (run later (step (SelectionChanged sels) (run evs this)))"
      by (simp only: step.simps shrink_empty)
  qed
  from e l False show ?thesis by blast
qed

text \<open>
  The theorem from the cursor inside \<open>bar\<close>: the change reported after a grow keeps
  the recorded selections, the next reported change empties the history, and the
  shrink after it goes to the editor.
\<close>

theorem history_invalidation_witness:
  "appliedSinceLastChange (didUpdateSelections cursorSession) [Grow] cursorSession
   \<and> selectionsHistory (run [Grow] cursorSession) = [[\<lparr>anchor = 13, active = 13\<rparr>]]
   \<and> selectionsHistory (run [Grow, SelectionChanged [\<lparr>anchor = 12, active = 15\<rparr>]] cursorSession)
       = [[\<lparr>anchor = 13, active = 13\<rparr>]]
   \<and> \<not> appliedSinceLastChange (didUpdateSelections cursorSession)
          [Grow, SelectionChanged [\<lparr>anchor = 12, active = 15\<rparr>]] cursorSession
   \<and> selectionsHistory
        (run [Grow, SelectionChanged [\<lparr>anchor = 12, active = 15\<rparr>],
              SelectionChanged [\<lparr>anchor = 2, active = 2\<rparr>]] cursorSession) = []
   \<and> executedCommands
        (run [Grow, SelectionChanged [\<lparr>anchor = 12, active = 15\<rparr>],
              SelectionChanged [\<lparr>anchor = 2, active = 2\<rparr>], Shrink] cursorSession)
       = [''editor.action.smartSelect.shrink'']"
proof -
  have a: "appliedSinceLastChange (didUpdateSelections cursorSession) [Grow] cursorSession"
    by code_simp
  have h: "selectionsHistory (run [Grow] cursorSession) = [[\<lparr>anchor = 13, active = 13\<rparr>]]"
    by code_simp
  have b: "\<not> appliedSinceLastChange (didUpdateSelections cursorSession)
          [Grow, SelectionChanged [\<lparr>anchor = 12, active = 15\<rparr>]] cursorSession"
    by code_simp
  have c: "executedCommands
             (run [Grow, SelectionChanged [\<lparr>anchor = 12, active = 15\<rparr>],
                   SelectionChanged [\<lparr>anchor = 2, active = 2\<rparr>]] cursorSession) = []"
    by code_simp
  let ?own = "SelectionChanged [\<lparr>anchor = 12, active = 15\<rparr>]"
  let ?ext = "SelectionChanged [\<lparr>anchor = 2, active = 2\<rparr>]"
  have r1: "run [Grow, ?own] cursorSession = step ?own (run [Grow] cursorSession)"
    by (simp only: run.simps)
  have r2: "run [Grow, ?own, ?ext] cursorSession
              = step ?ext (run [Grow, ?own] cursorSession)"
    by (simp only: run.simps)
  have r3: "run [Grow, ?own, ?ext, Shrink] cursorSession
              = step Shrink (run [] (step ?ext (run [Grow, ?own] cursorSession)))"
    by (simp only: run.simps)
  from history_invalidation [of cursorSession "[Grow]" "[\<lparr>anchor = 12, active = 15\<rparr>]"] a
  have "selectionsHistory (step ?own (run [Grow] cursorSession))
          = selectionsHistory (run [Grow] cursorSession)"
    by blast
  with h have own: "selectionsHistory (run [Grow, ?own] cursorSession)
       = [[\<lparr>anchor = 13, active = 13\<rparr>]]"
    by (simp only: r1)
  from history_invalidation [of cursorSession "[Grow, ?own]" "[\<lparr>anchor = 2, active = 2\<rparr>]"] b
  have e: "selectionsHistory (step ?ext (run [Grow, ?own] cursorSession)) = []"
    and l: "\<forall>later. Grow \<notin> set later \<longrightarrow>
            step Shrink (run later (step ?ext (run [Grow, ?own] cursorSession)))
              = executeCommand ''editor.action.smartSelect.shrink''
                  (run later (step ?ext (run [Grow, ?own] cursorSession)))"
    by blast+
  from e have ext: "selectionsHistory (run [Grow, ?own, ?ext] cursorSession) = []"
    by (simp only: r2)
  have "Grow \<notin> set ([] :: event list)" by simp
  with l have "step Shrink (run [] (step ?ext (run [Grow, ?own] cursorSession)))
              = executeCommand ''editor.action.smartSelect.shrink''
                  (run [] (step ?ext (run [Grow, ?own] cursorSession)))"
    by blast
  then have "run [Grow, ?own, ?ext, Shrink] cursorSession
      = executeCommand ''editor.action.smartSelect.shrink'' (run [Grow, ?own, ?ext] cursorSession)"
    by (simp only: r3 r2 run.simps)
  with c have d: "executedCommands (run [Grow, ?own, ?ext, Shrink] cursorSession)
       = [''editor.action.smartSelect.shrink'']"
    by (simp add: executeCommand_def)
  from a h own b ext d show ?thesis by blast
qed


end
